theory Spec2Isabelle
  imports Complex_Main
begin

section \<open>The import-job calls of the notebooks\<close>

text \<open>
  Both notebooks end with the same three cells (notebook 1, cells 65, 66 and 68;
  notebook 3, cells 19, 20 and 22):
  \<^verbatim>\<open>
  ds_import_job_response=forecast.create_dataset_import_job(
      DatasetImportJobName=datasetImportJobName, DatasetArn=target_datasetArn,
      DataSource= {"S3Config" : {"Path":target_s3DataPath, "RoleArn": role_arn}},
      TimestampFormat=TIMESTAMP_FORMAT)

  ds_import_job_arn=ds_import_job_response['DatasetImportJobArn']
  print(ds_import_job_arn)

  while True:
      dataImportStatus = forecast.describe_dataset_import_job(
          DatasetImportJobArn=ds_import_job_arn)['Status']
      print(dataImportStatus)
      if dataImportStatus != 'ACTIVE' and dataImportStatus != 'CREATE_FAILED':
          sleep(30)
      else:
          break
  \<close>
  The forecasting service is outside the repository. It is a parameter of the model: a pair
  of functions giving the answer of each call, where the answer of a status request may
  depend on how many status requests came before it. A call of the client library either
  returns or raises; the notebooks catch nothing, so an exception ends the run.
\<close>

datatype api_error = ClientError string

record import_request =
  DatasetImportJobName :: string
  DatasetArn :: string
  Path :: string
  RoleArn :: string
  TimestampFormat :: string

record forecast_service =
  create_dataset_import_job :: "import_request \<Rightarrow> api_error + string"
  describe_dataset_import_job :: "string \<Rightarrow> nat \<Rightarrow> api_error + string"

text \<open>What a run does, in order: the calls to the service, the lines printed, the sleeps.\<close>

datatype event =
  Created import_request
| Described string
| Printed string
| Slept nat

text \<open>
  The loop of cell 68. \<open>n\<close> counts the status requests already made and \<open>tr\<close> is the
  trace so far. The loop has no bound, so the model is a partial function: \<open>None\<close>
  means that the loop never ends.
\<close>

partial_function (option) poll_loop ::
  "forecast_service \<Rightarrow> string \<Rightarrow> nat \<Rightarrow> event list \<Rightarrow> ((api_error + string) \<times> event list) option"
where
  "poll_loop forecast arn n tr =
     (case describe_dataset_import_job forecast arn n of
        Inl e \<Rightarrow> Some (Inl e, tr @ [Described arn])
      | Inr dataImportStatus \<Rightarrow>
          if dataImportStatus \<noteq> ''ACTIVE'' \<and> dataImportStatus \<noteq> ''CREATE_FAILED''
          then poll_loop forecast arn (Suc n)
                 (tr @ [Described arn, Printed dataImportStatus, Slept 30])
          else Some (Inr dataImportStatus, tr @ [Described arn, Printed dataImportStatus]))"

declare poll_loop.simps [code]

text \<open>Cells 65, 66 and 68 in sequence: one submission, then the loop.\<close>

definition submit_and_wait ::
  "forecast_service \<Rightarrow> import_request \<Rightarrow> ((api_error + string) \<times> event list) option"
where
  "submit_and_wait forecast req =
     (case create_dataset_import_job forecast req of
        Inl e \<Rightarrow> Some (Inl e, [Created req])
      | Inr ds_import_job_arn \<Rightarrow>
          poll_loop forecast ds_import_job_arn 0 [Created req, Printed ds_import_job_arn])"

text \<open>The two statuses at which the loop breaks.\<close>

definition terminal :: "string \<Rightarrow> bool" where
  "terminal st \<longleftrightarrow> st = ''ACTIVE'' \<or> st = ''CREATE_FAILED''"

definition is_Described :: "event \<Rightarrow> bool" where
  "is_Described ev = (case ev of Described _ \<Rightarrow> True | _ \<Rightarrow> False)"

definition is_Slept :: "event \<Rightarrow> bool" where
  "is_Slept ev = (case ev of Slept _ \<Rightarrow> True | _ \<Rightarrow> False)"

definition is_Created :: "event \<Rightarrow> bool" where
  "is_Created ev = (case ev of Created _ \<Rightarrow> True | _ \<Rightarrow> False)"

text \<open>The number of status requests, sleeps and submissions of a trace.\<close>

definition status_requests :: "event list \<Rightarrow> nat" where
  "status_requests tr = length (filter is_Described tr)"

definition sleeps :: "event list \<Rightarrow> nat" where
  "sleeps tr = length (filter is_Slept tr)"

definition submissions :: "event list \<Rightarrow> nat" where
  "submissions tr = length (filter is_Created tr)"

text \<open>
  A scripted service, for running the loop on a given sequence of statuses: submission
  returns a fixed job name, the \<open>n\<close>-th status request returns the \<open>n\<close>-th status of the
  script, and the last one from then on.
\<close>

definition scripted_service :: "string list \<Rightarrow> forecast_service" where
  "scripted_service sts =
     \<lparr>create_dataset_import_job = (\<lambda>req. Inr ''job''),
      describe_dataset_import_job = (\<lambda>arn n. Inr (if n < length sts then sts ! n else last sts))\<rparr>"

definition refusing_service :: forecast_service where
  "refusing_service =
     \<lparr>create_dataset_import_job = (\<lambda>req. Inl (ClientError ''AccessDenied'')),
      describe_dataset_import_job = (\<lambda>arn n. Inr ''ACTIVE'')\<rparr>"

definition raising_service :: "string list \<Rightarrow> forecast_service" where
  "raising_service sts =
     \<lparr>create_dataset_import_job = (\<lambda>req. Inr ''job''),
      describe_dataset_import_job =
        (\<lambda>arn n. if n < length sts then Inr (sts ! n) else Inl (ClientError ''Throttling''))\<rparr>"

text \<open>
  The request of cell 65 of notebook 1. \<open>TIMESTAMP_FORMAT\<close> is set in cell 44:
  \<^verbatim>\<open>TIMESTAMP_FORMAT = "yyyy-MM-dd hh:mm:ss"\<close>. The dataset name, the bucket and the role
  come from earlier answers of the cloud services and are parameters.
\<close>

definition TIMESTAMP_FORMAT :: string where
  "TIMESTAMP_FORMAT = ''yyyy-MM-dd hh:mm:ss''"

definition target_time_series_filename :: string where
  "target_time_series_filename = ''target_time_series.csv''"

definition target_import_request :: "string \<Rightarrow> string \<Rightarrow> string \<Rightarrow> import_request" where
  "target_import_request target_datasetArn bucket_name role_arn =
     \<lparr>DatasetImportJobName = ''DSIMPORT_JOB_TARGET_POC'',
      DatasetArn = target_datasetArn,
      Path = ''s3://'' @ bucket_name @ ''/'' @ target_time_series_filename,
      RoleArn = role_arn,
      TimestampFormat = TIMESTAMP_FORMAT\<rparr>"


section \<open>Data frames\<close>

text \<open>
  The notebooks work on pandas data frames indexed by time. A time stamp is a whole
  number of seconds since 1970-01-01 00:00:00, the resolution of the \<open>date_time\<close> column of
  the input file. A cell holds a number, a string, or nothing: pandas writes a missing
  value as \<open>NaN\<close> (or \<open>None\<close>), and \<open>isnull\<close>, \<open>ffill\<close> and \<open>dropna\<close> treat both alike. A row
  is its index value and its cells, in the order of the columns.
\<close>

type_synonym timestamp = int

datatype cell = NaN | Num rat | Str string

type_synonym row = "timestamp \<times> cell list"

record frame =
  columns :: "string list"
  rows :: "row list"

text \<open>Every row of a frame has one cell for each column.\<close>

definition well_formed :: "frame \<Rightarrow> bool" where
  "well_formed df = list_all (\<lambda>r. length (snd r) = length (columns df)) (rows df)"

text \<open>\<open>df.isnull().any(axis=1)\<close>, row by row, and for the whole frame.\<close>

definition row_isnull :: "row \<Rightarrow> bool" where
  "row_isnull r = (NaN \<in> set (snd r))"

definition any_null :: "frame \<Rightarrow> bool" where
  "any_null df = list_ex row_isnull (rows df)"

subsection \<open>\<open>drop_duplicates(keep='first')\<close>\<close>

text \<open>
  \<^verbatim>\<open>target_df.set_index('date_time', inplace=True)
  target_df = target_df.drop_duplicates(keep ='first')\<close>
  \<open>DataFrame.drop_duplicates\<close> without \<open>subset\<close> compares the values of all columns. The
  index is not a column: after \<open>set_index\<close> the time stamp takes no part in the
  comparison. A row is dropped when an earlier row has the same cells; \<open>seen\<close> holds the
  cells met so far.
\<close>

fun drop_duplicates_rows :: "cell list list \<Rightarrow> row list \<Rightarrow> row list" where
  "drop_duplicates_rows seen [] = []"
| "drop_duplicates_rows seen (r # rs) =
     (if snd r \<in> set seen then drop_duplicates_rows seen rs
      else r # drop_duplicates_rows (snd r # seen) rs)"

definition drop_duplicates :: "frame \<Rightarrow> frame" where
  "drop_duplicates df = df\<lparr>rows := drop_duplicates_rows [] (rows df)\<rparr>"

subsection \<open>\<open>pd.date_range(start, end, freq)\<close>\<close>

text \<open>
  For a fixed frequency pandas computes the index with \<open>numpy.arange\<close>
  (\<open>generate_regular_range\<close>):
  \<^verbatim>\<open>
  b = start.value
  e = b + (end.value - b) // stride * stride + stride // 2 + 1
  values = np.arange(b, e, stride)
  \<close>
  The stride of the notebooks is one hour (\<open>freq='H'\<close>). \<open>arange b e stride\<close> counts
  up from \<open>b\<close> while below \<open>e\<close> for a positive stride and down while above \<open>e\<close> for a
  negative one. The floor division by a stride of zero raises before \<open>arange\<close> is
  reached.
\<close>

datatype py_error = ZeroDivisionError | KeyError string

function arange :: "int \<Rightarrow> int \<Rightarrow> int \<Rightarrow> int list" where
  "arange b e stride =
     (if 0 < stride then (if b < e then b # arange (b + stride) e stride else [])
      else if stride < 0 then (if e < b then b # arange (b + stride) e stride else [])
      else [])"
  by pat_completeness auto
termination
  by (relation "measure (\<lambda>(b, e, stride). nat (if 0 < stride then e - b else b - e))") auto

declare arange.simps [simp del]

definition date_range :: "timestamp \<Rightarrow> timestamp \<Rightarrow> int \<Rightarrow> py_error + timestamp list" where
  "date_range start end' freq =
     (if freq = 0 then Inl ZeroDivisionError
      else Inr (arange start (start + (end' - start) div freq * freq + freq div 2 + 1) freq))"

text \<open>\<open>pd.DataFrame(index=idx)\<close>: a frame with the given index and no column.\<close>

definition DataFrame :: "timestamp list \<Rightarrow> frame" where
  "DataFrame idx = \<lparr>columns = [], rows = map (\<lambda>t. (t, [])) idx\<rparr>"

subsection \<open>\<open>left.join(right, how='outer')\<close>\<close>

text \<open>
  The join is on the two indexes. The result has the union of the keys, in increasing
  order. A key of one side only gets missing values for the columns of the other side. A
  key that occurs several times on one side gives one row for each occurrence, in the
  order of that side.
\<close>

definition nan_cells :: "frame \<Rightarrow> cell list" where
  "nan_cells df = replicate (length (columns df)) NaN"

definition cells_at :: "frame \<Rightarrow> timestamp \<Rightarrow> cell list list" where
  "cells_at df k =
     (case map snd (filter (\<lambda>r. fst r = k) (rows df)) of
        [] \<Rightarrow> [nan_cells df]
      | cs \<Rightarrow> cs)"

definition join_keys :: "frame \<Rightarrow> frame \<Rightarrow> timestamp list" where
  "join_keys left right = sort (remdups (map fst (rows left) @ map fst (rows right)))"

definition join_outer :: "frame \<Rightarrow> frame \<Rightarrow> frame" where
  "join_outer left right =
     \<lparr>columns = columns left @ columns right,
      rows = concat (map (\<lambda>k. concat (map (\<lambda>l. map (\<lambda>r. (k, l @ r)) (cells_at right k))
                                         (cells_at left k)))
                         (join_keys left right))\<rparr>"

subsection \<open>Slices, filling and replacement\<close>

text \<open>
  \<open>df.loc[lo:]\<close> and \<open>df.loc[lo:hi]\<close> on a time index keep the rows whose time stamp lies in
  the closed range. A date without a time as the upper label stands for the last instant
  of that day.
\<close>

definition loc_from :: "timestamp \<Rightarrow> frame \<Rightarrow> frame" where
  "loc_from lo df = df\<lparr>rows := filter (\<lambda>r. lo \<le> fst r) (rows df)\<rparr>"

definition loc_between :: "timestamp \<Rightarrow> timestamp \<Rightarrow> frame \<Rightarrow> frame" where
  "loc_between lo hi df = df\<lparr>rows := filter (\<lambda>r. lo \<le> fst r \<and> fst r \<le> hi) (rows df)\<rparr>"

text \<open>
  \<open>df.ffill()\<close> returns a new frame in which every missing cell has the value of the
  nearest cell above it in the same column that is not missing; a missing cell with
  nothing but missing cells above it stays missing. \<open>fill_cells prev cs\<close> fills the row
  \<open>cs\<close> from the filled row above it.
\<close>

fun fill_cells :: "cell list \<Rightarrow> cell list \<Rightarrow> cell list" where
  "fill_cells (p # ps) (c # cs) = (if c = NaN then p else c) # fill_cells ps cs"
| "fill_cells [] cs = cs"
| "fill_cells ps [] = []"

fun ffill_rows :: "cell list \<Rightarrow> row list \<Rightarrow> row list" where
  "ffill_rows prev [] = []"
| "ffill_rows prev (r # rs) =
     (fst r, fill_cells prev (snd r)) # ffill_rows (fill_cells prev (snd r)) rs"

definition ffill :: "frame \<Rightarrow> frame" where
  "ffill df = df\<lparr>rows := ffill_rows [] (rows df)\<rparr>"

text \<open>\<open>df.replace('', np.nan)\<close>: every cell that is the empty string becomes missing.\<close>

definition replace_empty :: "frame \<Rightarrow> frame" where
  "replace_empty df =
     df\<lparr>rows := map (\<lambda>r. (fst r, map (\<lambda>c. if c = Str [] then NaN else c) (snd r))) (rows df)\<rparr>"

text \<open>\<open>df.dropna()\<close> returns a new frame without the rows that have a missing cell.\<close>

definition dropna :: "frame \<Rightarrow> frame" where
  "dropna df = df\<lparr>rows := filter (\<lambda>r. \<not> row_isnull r) (rows df)\<rparr>"

subsection \<open>Column selection and assignment\<close>

text \<open>
  \<open>df[[names]]\<close> keeps the named columns, in the order of the names, and raises
  \<open>KeyError\<close> for a name that is not a column. \<open>df[name] = value\<close> with a new name appends
  a column holding the value in every row.
\<close>

fun column_position :: "string list \<Rightarrow> string \<Rightarrow> nat option" where
  "column_position [] name = None"
| "column_position (c # cs) name =
     (if c = name then Some 0 else map_option Suc (column_position cs name))"

definition cell_at :: "cell list \<Rightarrow> nat \<Rightarrow> cell" where
  "cell_at cs i = (if i < length cs then cs ! i else NaN)"

definition getitem :: "frame \<Rightarrow> string list \<Rightarrow> py_error + frame" where
  "getitem df names =
     (case filter (\<lambda>n. column_position (columns df) n = None) names of
        missing # _ \<Rightarrow> Inl (KeyError missing)
      | [] \<Rightarrow> Inr \<lparr>columns = names,
                  rows = map (\<lambda>r. (fst r, map (\<lambda>n. cell_at (snd r) (the (column_position (columns df) n)))
                                              names))
                             (rows df)\<rparr>)"

definition setitem_new :: "frame \<Rightarrow> string \<Rightarrow> cell \<Rightarrow> frame" where
  "setitem_new df name v =
     \<lparr>columns = columns df @ [name], rows = map (\<lambda>r. (fst r, snd r @ [v])) (rows df)\<rparr>"

section \<open>The cells of the notebooks\<close>

text \<open>
  Notebook 1 reads the input file into \<open>original_data\<close> and builds the frames below, cell
  by cell; \<open>%store\<close> hands them to notebook 3. The dates written in the cells are collected
  in one record, so that a property can be stated for any range and frequency:
  \<^item> \<open>range_start\<close>, \<open>range_end\<close>, \<open>freq\<close>: \<open>pd.date_range(start='10/02/2012', end='09/30/2018', freq='H')\<close>;
  \<^item> \<open>slice_from\<close>: \<open>.loc['2017-01-01':]\<close> (both notebooks);
  \<^item> \<open>train_to\<close>: \<open>.loc['2017-01-01':'2017-12-31']\<close>;
  \<^item> \<open>validation_from\<close>: \<open>.loc['2018-01-01':]\<close>.
\<close>

record literals =
  range_start :: timestamp
  range_end :: timestamp
  freq :: int
  slice_from :: timestamp
  train_to :: timestamp
  validation_from :: timestamp

text \<open>
  The values in the notebooks, in seconds since 1970-01-01 00:00:00: 2012-10-02 00:00:00,
  2018-09-30 00:00:00, one hour, 2017-01-01 00:00:00, 2017-12-31 23:59:59 and
  2018-01-01 00:00:00.
\<close>

definition notebook_literals :: literals where
  "notebook_literals =
     \<lparr>range_start = 1349136000, range_end = 1538265600, freq = 3600,
      slice_from = 1483228800, train_to = 1514764799, validation_from = 1514764800\<rparr>"

text \<open>The columns of the input file once \<open>date_time\<close> is the index (cell 12).\<close>

definition original_columns :: "string list" where
  "original_columns =
     [''holiday'', ''temp'', ''rain_1h'', ''snow_1h'', ''clouds_all'', ''weather_main'',
      ''weather_description'', ''traffic_volume'']"

text \<open>The frames that notebook 1 stores for notebook 3.\<close>

record store =
  full_df :: frame
  full_historical_df :: frame
  target_df :: frame
  target_time_series_df :: frame
  validation_time_series_df :: frame

subsection \<open>Notebook 1\<close>

text \<open>
  Cell 12:
  \<^verbatim>\<open>target_df.set_index('date_time', inplace=True)
  target_df = target_df.drop_duplicates(keep ='first')\<close>
  The argument is the input with \<open>date_time\<close> as its index.
\<close>

definition cell12 :: "frame \<Rightarrow> frame" where
  "cell12 original_data = drop_duplicates original_data"

text \<open>Cell 14: \<^verbatim>\<open>idx = pd.date_range(start='10/02/2012', end='09/30/2018', freq='H')\<close>\<close>

definition cell14 :: "literals \<Rightarrow> py_error + timestamp list" where
  "cell14 p = date_range (range_start p) (range_end p) (freq p)"

text \<open>Cell 15: \<^verbatim>\<open>full_df = pd.DataFrame(index=idx)\<close>\<close>

definition cell15 :: "timestamp list \<Rightarrow> frame" where
  "cell15 idx = DataFrame idx"

text \<open>Cell 17: \<^verbatim>\<open>full_historical_df = full_df.join(target_df, how='outer')\<close>\<close>

definition cell17 :: "frame \<Rightarrow> frame \<Rightarrow> frame" where
  "cell17 full_df' target_df' = join_outer full_df' target_df'"

text \<open>
  Cell 30:
  \<^verbatim>\<open>target_df = full_historical_df.copy()
  target_df = target_df.loc['2017-01-01':]\<close>
\<close>

definition cell30 :: "literals \<Rightarrow> frame \<Rightarrow> frame" where
  "cell30 p full_historical_df' = loc_from (slice_from p) full_historical_df'"

text \<open>
  Cell 32:
  \<^verbatim>\<open># Fill in any missing data with the method ffill
  target_df.ffill()\<close>
  \<open>ffill\<close> returns the filled frame and leaves \<open>target_df\<close> as it is. The cell assigns
  nothing: the filled frame is only displayed. The result is the pair of the frame
  displayed and of \<open>target_df\<close> after the cell.
\<close>

definition cell32 :: "frame \<Rightarrow> frame \<times> frame" where
  "cell32 target_df' = (ffill target_df', target_df')"

text \<open>
  Cell 35:
  \<^verbatim>\<open>target_time_series_df = target_df.copy()
  target_time_series_df = target_time_series_df.loc['2017-01-01':'2017-12-31']\<close>
\<close>

definition cell35 :: "literals \<Rightarrow> frame \<Rightarrow> frame" where
  "cell35 p target_df' = loc_between (slice_from p) (train_to p) target_df'"

text \<open>
  Cell 37 (and cell 41, for the validation frame):
  \<^verbatim>\<open>target_time_series_df = target_time_series_df[['traffic_volume']]
  target_time_series_df['item_ID'] = "1"\<close>
\<close>

definition cell37 :: "frame \<Rightarrow> py_error + frame" where
  "cell37 df =
     (case getitem df [''traffic_volume''] of
        Inl e \<Rightarrow> Inl e
      | Inr selected \<Rightarrow> Inr (setitem_new selected ''item_ID'' (Str ''1'')))"

text \<open>
  Cell 40:
  \<^verbatim>\<open>validation_time_series_df = target_df.copy()
  validation_time_series_df = validation_time_series_df.loc['2018-01-01':]\<close>
\<close>

definition cell40 :: "literals \<Rightarrow> frame \<Rightarrow> frame" where
  "cell40 p target_df' = loc_from (validation_from p) target_df'"

text \<open>The cells in the order of the notebook; an exception ends the run.\<close>

definition notebook1 :: "literals \<Rightarrow> frame \<Rightarrow> py_error + store" where
  "notebook1 p original_data =
     (let target_df1 = cell12 original_data in
      case cell14 p of
        Inl e \<Rightarrow> Inl e
      | Inr idx \<Rightarrow>
          (let full_df' = cell15 idx;
               full_historical_df' = cell17 full_df' target_df1;
               target_df2 = cell30 p full_historical_df';
               target_df3 = snd (cell32 target_df2)
           in case cell37 (cell35 p target_df3) of
                Inl e \<Rightarrow> Inl e
              | Inr target_time_series_df' \<Rightarrow>
                  (case cell37 (cell40 p target_df3) of
                     Inl e \<Rightarrow> Inl e
                   | Inr validation_time_series_df' \<Rightarrow>
                       Inr \<lparr>full_df = full_df',
                            full_historical_df = full_historical_df',
                            target_df = target_df3,
                            target_time_series_df = target_time_series_df',
                            validation_time_series_df = validation_time_series_df'\<rparr>)))"

subsection \<open>Notebook 3\<close>

text \<open>
  Cell 4:
  \<^verbatim>\<open>
  related_time_series_df = target_df.copy()
  related_time_series_df.dropna()
  related_time_series_df = full_df.join(related_time_series_df, how='outer')
  cols = related_time_series_df.columns.tolist()
  related_time_series_df[cols] = related_time_series_df[cols].replace('', np.nan).ffill()
  related_time_series_df = related_time_series_df.loc['2017-01-01':]
  \<close>
  The second line computes a frame and drops it. \<open>cols\<close> is the list of all columns, so
  the fifth line replaces the whole frame.
\<close>

definition related_cell4 :: "literals \<Rightarrow> store \<Rightarrow> frame" where
  "related_cell4 p st =
     (let related1 = target_df st;
          dropped = dropna related1;
          related2 = join_outer (full_df st) related1;
          related3 = ffill (replace_empty related2)
      in loc_from (slice_from p) related3)"

text \<open>
  Cell 7, \<^verbatim>\<open>related_time_series_df[related_time_series_df.isnull().any(axis=1)]\<close>, displays
  the rows that have a missing cell. It changes nothing and stops nothing.
\<close>

definition related_cell7 :: "frame \<Rightarrow> frame \<times> frame" where
  "related_cell7 df = (df\<lparr>rows := filter row_isnull (rows df)\<rparr>, df)"

text \<open>
  Cell 11:
  \<^verbatim>\<open>related_time_series_df = related_time_series_df[['temp', 'rain_1h', 'snow_1h', 'clouds_all', 'weather_description']]
  related_time_series_df['item_ID'] = "1"\<close>
\<close>

definition related_cell11 :: "frame \<Rightarrow> py_error + frame" where
  "related_cell11 df =
     (case getitem df [''temp'', ''rain_1h'', ''snow_1h'', ''clouds_all'', ''weather_description''] of
        Inl e \<Rightarrow> Inl e
      | Inr selected \<Rightarrow> Inr (setitem_new selected ''item_ID'' (Str ''1'')))"

definition notebook3 :: "literals \<Rightarrow> store \<Rightarrow> py_error + frame" where
  "notebook3 p st = related_cell11 (snd (related_cell7 (related_cell4 p st)))"

text \<open>Both notebooks, one after the other: from the input to the related frame.\<close>

definition related_time_series_df :: "literals \<Rightarrow> frame \<Rightarrow> py_error + frame" where
  "related_time_series_df p original_data =
     (case notebook1 p original_data of
        Inl e \<Rightarrow> Inl e
      | Inr st \<Rightarrow> notebook3 p st)"

section \<open>Reference definitions and sample data\<close>

text \<open>
  The most recent value of a column that is neither missing nor the empty string: the
  last such cell of the column read from the top down to the row in question, and
  missing when there is none.
\<close>

definition most_recent_value :: "cell list \<Rightarrow> cell" where
  "most_recent_value col =
     (case filter (\<lambda>c. c \<noteq> NaN \<and> c \<noteq> Str []) col of
        [] \<Rightarrow> NaN
      | vs \<Rightarrow> last vs)"

text \<open>
  A small range for running the cells by hand: three hours from 1970-01-01 00:00:00,
  sliced from the first hour; the training slice ends with the second hour and the
  validation slice starts with the third.
\<close>

definition three_hours :: literals where
  "three_hours =
     \<lparr>range_start = 0, range_end = 7200, freq = 3600,
      slice_from = 0, train_to = 3600, validation_from = 7200\<rparr>"

text \<open>A row of the input: temperature, weather and traffic volume vary, the rest is fixed.\<close>

definition observation :: "rat \<Rightarrow> string \<Rightarrow> rat \<Rightarrow> cell list" where
  "observation temp weather traffic_volume =
     [Str ''None'', Num temp, Num 0, Num 0, Num 40, Str ''Clouds'', Str weather,
      Num traffic_volume]"

definition original :: "row list \<Rightarrow> frame" where
  "original rs = \<lparr>columns = original_columns, rows = rs\<rparr>"

text \<open>
  An input with a gap at the second hour and an empty string in the third, and the frames
  that notebook 1 stores for it.
\<close>

definition sample_input :: frame where
  "sample_input = original [(0, observation 288 ''mist'' 5545), (7200, observation 289 [] 4516)]"

definition sample_store :: store where
  "sample_store =
     \<lparr>full_df = \<lparr>columns = [], rows = [(0, []), (3600, []), (7200, [])]\<rparr>,
      full_historical_df =
        original [(0, observation 288 ''mist'' 5545), (3600, replicate 8 NaN),
                  (7200, observation 289 [] 4516)],
      target_df =
        original [(0, observation 288 ''mist'' 5545), (3600, replicate 8 NaN),
                  (7200, observation 289 [] 4516)],
      target_time_series_df =
        \<lparr>columns = [''traffic_volume'', ''item_ID''],
         rows = [(0, [Num 5545, Str ''1'']), (3600, [NaN, Str ''1''])]\<rparr>,
      validation_time_series_df =
        \<lparr>columns = [''traffic_volume'', ''item_ID''],
         rows = [(7200, [Num 4516, Str ''1''])]\<rparr>\<rparr>"

text \<open>A gap-free input for the three hours, and the frames notebook 1 stores for it.\<close>

definition regular_input :: frame where
  "regular_input =
     original [(0, observation 288 ''mist'' 5545), (3600, observation 289 ''mist'' 4516),
               (7200, observation 290 ''mist'' 4767)]"

definition regular_store :: store where
  "regular_store =
     \<lparr>full_df = \<lparr>columns = [], rows = [(0, []), (3600, []), (7200, [])]\<rparr>,
      full_historical_df = regular_input,
      target_df = regular_input,
      target_time_series_df =
        \<lparr>columns = [''traffic_volume'', ''item_ID''],
         rows = [(0, [Num 5545, Str ''1'']), (3600, [Num 4516, Str ''1''])]\<rparr>,
      validation_time_series_df =
        \<lparr>columns = [''traffic_volume'', ''item_ID''],
         rows = [(7200, [Num 4767, Str ''1''])]\<rparr>\<rparr>"

text \<open>
  What cell 11 of notebook 3 keeps of a row that has the columns of the input: the cells of
  \<open>temp\<close>, \<open>rain_1h\<close>, \<open>snow_1h\<close>, \<open>clouds_all\<close> and \<open>weather_description\<close>, followed by
  the item.
\<close>

definition related_cells :: "cell list \<Rightarrow> cell list" where
  "related_cells cs = [cell_at cs 1, cell_at cs 2, cell_at cs 3, cell_at cs 4, cell_at cs 6, Str ''1'']"

text \<open>
  The hours from 2017-01-01 00:00:00 to 2018-09-30 23:00:00, and an input that has one
  row for each of them but three, with values that differ from hour to hour.
\<close>

definition hours_2017_2018 :: "timestamp list" where
  "hours_2017_2018 = map (\<lambda>k. 1483228800 + int k * 3600) [0..<15312]"

definition scenario_missing :: "timestamp list" where
  "scenario_missing = map (\<lambda>k. 1483228800 + int k * 3600) [100, 5000, 12000]"

definition scenario_input :: frame where
  "scenario_input =
     original (map (\<lambda>k. (1483228800 + int k * 3600, observation (of_nat k) ''mist'' (of_nat k)))
                   (filter (\<lambda>k. k \<noteq> 100 \<and> k \<noteq> 5000 \<and> k \<noteq> 12000) [0..<15312]))"

section \<open>The files and the schemas\<close>

subsection \<open>Time stamps as text\<close>

text \<open>
  pandas writes a time stamp of whole seconds as \<open>YYYY-MM-DD HH:MM:SS\<close>, with the hour
  counted from 00 to 23. The date is the day of the proleptic Gregorian calendar with the
  given number of days since 1970-01-01.
\<close>

definition civil_from_days :: "int \<Rightarrow> int \<times> int \<times> int" where
  "civil_from_days days =
     (let z = days + 719468;
          era = z div 146097;
          doe = z - era * 146097;
          yoe = (doe - doe div 1460 + doe div 36524 - doe div 146096) div 365;
          doy = doe - (365 * yoe + yoe div 4 - yoe div 100);
          mp = (5 * doy + 2) div 153;
          d = doy - (153 * mp + 2) div 5 + 1;
          m = (if mp < 10 then mp + 3 else mp - 9);
          y = yoe + era * 400 + (if m \<le> 2 then 1 else 0)
      in (y, m, d))"

definition digit :: "int \<Rightarrow> char" where
  "digit n = ''0123456789'' ! nat (n mod 10)"

definition two_digits :: "int \<Rightarrow> string" where
  "two_digits n = [digit (n div 10), digit n]"

definition four_digits :: "int \<Rightarrow> string" where
  "four_digits n = [digit (n div 1000), digit (n div 100), digit (n div 10), digit n]"

definition format_date :: "timestamp \<Rightarrow> string" where
  "format_date t =
     (case civil_from_days (t div 86400) of
        (y, m, d) \<Rightarrow> four_digits y @ ''-'' @ two_digits m @ ''-'' @ two_digits d)"

definition format_datetime :: "timestamp \<Rightarrow> string" where
  "format_datetime t =
     format_date t @ '' '' @ two_digits (t mod 86400 div 3600) @ '':''
       @ two_digits (t mod 3600 div 60) @ '':'' @ two_digits (t mod 60)"

text \<open>
  When every time stamp of the values to write is a midnight, pandas writes the dates
  only (\<open>_is_dates_only\<close>).
\<close>

definition format_index :: "timestamp list \<Rightarrow> string list" where
  "format_index ts =
     (if list_all (\<lambda>t. t mod 86400 = 0) ts then map format_date ts else map format_datetime ts)"

subsection \<open>\<open>df.to_csv(path, header=False)\<close>\<close>

text \<open>
  \<^verbatim>\<open>target_time_series_df.to_csv(target_time_series_path, header=False)\<close> (cell 38 of notebook
  1; cell 42 for the validation frame and cell 12 of notebook 3 for the related frame).
  With the defaults of the other arguments the file has one line for each row and no line
  of column names; a line holds the index and then the cells in the order of the columns,
  separated by commas. The rows are written in chunks of \<open>100000 // number of columns\<close>
  rows, and the index is turned into text chunk by chunk.

  pandas keeps a type for every column, and \<open>to_csv\<close> writes a cell by the type of its
  column: a number of a column of type \<open>int64\<close> in decimal digits (zero is \<open>0\<close>), a number
  of a column of type \<open>float64\<close> as Python writes a float (zero is \<open>0.0\<close>), a string as it
  is and a missing value as the empty string. The columns of type \<open>object\<close> of the notebooks
  hold strings; a number in such a column is written like a float. The frames of this
  theory hold no types: \<open>to_csv\<close> takes the types of the columns as an argument, \<open>dtypes\<close>,
  in the order of the columns, and a column with no type given counts as \<open>object\<close>. How a
  float is written is a parameter, \<open>repr\<close>.
\<close>

datatype dtype = int64 | float64 | object

fun decimal :: "nat \<Rightarrow> string" where
  "decimal n = (if n < 10 then [digit (int n)] else decimal (n div 10) @ [digit (int n)])"

declare decimal.simps [simp del]

definition str_int :: "int \<Rightarrow> string" where
  "str_int i = (if i < 0 then ''-'' @ decimal (nat (- i)) else decimal (nat i))"

definition render_cell :: "(rat \<Rightarrow> string) \<Rightarrow> dtype \<Rightarrow> cell \<Rightarrow> string" where
  "render_cell repr d c =
     (case c of
        NaN \<Rightarrow> []
      | Str s \<Rightarrow> s
      | Num x \<Rightarrow> (if d = int64 then str_int \<lfloor>x\<rfloor> else repr x))"

fun render_cells :: "(rat \<Rightarrow> string) \<Rightarrow> dtype list \<Rightarrow> cell list \<Rightarrow> string list" where
  "render_cells repr dtypes [] = []"
| "render_cells repr [] (c # cs) = render_cell repr object c # render_cells repr [] cs"
| "render_cells repr (d # dtypes) (c # cs) = render_cell repr d c # render_cells repr dtypes cs"

function chunks_of :: "nat \<Rightarrow> 'a list \<Rightarrow> 'a list list" where
  "chunks_of n [] = []"
| "chunks_of n (x # xs) =
     (if n = 0 then [] else take n (x # xs) # chunks_of n (drop n (x # xs)))"
  by pat_completeness auto
termination
  by (relation "measure (\<lambda>(n, xs). length xs)") auto

declare chunks_of.simps [simp del]

definition chunksize :: "frame \<Rightarrow> nat" where
  "chunksize df = max 1 (100000 div max 1 (length (columns df)))"

definition chunk_records :: "(rat \<Rightarrow> string) \<Rightarrow> dtype list \<Rightarrow> row list \<Rightarrow> string list list" where
  "chunk_records repr dtypes chunk =
     map (\<lambda>(ix, r). ix # render_cells repr dtypes (snd r)) (zip (format_index (map fst chunk)) chunk)"

definition to_csv_records :: "(rat \<Rightarrow> string) \<Rightarrow> dtype list \<Rightarrow> frame \<Rightarrow> string list list" where
  "to_csv_records repr dtypes df =
     concat (map (chunk_records repr dtypes) (chunks_of (chunksize df) (rows df)))"

text \<open>
  The writer of the standard library puts a field between double quotes when it contains
  the delimiter, the quote character or the line terminator, and doubles every quote
  character inside.
\<close>

definition needs_quotes :: "string \<Rightarrow> bool" where
  "needs_quotes field = list_ex (\<lambda>c. c = CHR '','' \<or> c = CHR 0x22 \<or> c = CHR 0x0A) field"

definition quote_field :: "string \<Rightarrow> string" where
  "quote_field field =
     (if needs_quotes field
      then [CHR 0x22] @ concat (map (\<lambda>c. if c = CHR 0x22 then [c, c] else [c]) field) @ [CHR 0x22]
      else field)"

fun join_fields :: "string list \<Rightarrow> string" where
  "join_fields [] = []"
| "join_fields [f] = f"
| "join_fields (f # g # fs) = f @ '','' @ join_fields (g # fs)"

definition csv_line :: "string list \<Rightarrow> string" where
  "csv_line fs = join_fields (map quote_field fs) @ [CHR 0x0A]"

definition to_csv :: "(rat \<Rightarrow> string) \<Rightarrow> dtype list \<Rightarrow> frame \<Rightarrow> string" where
  "to_csv repr dtypes df = concat (map csv_line (to_csv_records repr dtypes df))"

subsection \<open>Reading a file back\<close>

text \<open>A reader that takes the fields of a line by position splits it at every comma.\<close>

fun split_fields :: "string \<Rightarrow> string list" where
  "split_fields [] = [[]]"
| "split_fields (c # cs) =
     (if c = CHR '','' then [] # split_fields cs
      else (case split_fields cs of f # fs \<Rightarrow> (c # f) # fs | [] \<Rightarrow> [[c]]))"

text \<open>
  A reference reader of comma-separated text, for saying what a file holds: the records
  are separated by line feeds and the fields of a record by commas; a field that starts
  with a double quote runs to the next double quote that is not doubled, commas and line
  feeds inside it belong to the field, and two double quotes inside it stand for one.
  \<open>read_fields\<close> goes through the text character by character with the field read so far
  (\<open>cur\<close>, last character first) and the fields of the record read so far (\<open>acc\<close>, last
  field first).
\<close>

datatype position = Unquoted | Quoted | Closing

fun read_fields :: "position \<Rightarrow> string \<Rightarrow> string list \<Rightarrow> string \<Rightarrow> string list list" where
  "read_fields pos cur acc [] =
     (if pos = Unquoted \<and> cur = [] \<and> acc = [] then [] else [rev (rev cur # acc)])"
| "read_fields Unquoted cur acc (c # cs) =
     (if c = CHR '','' then read_fields Unquoted [] (rev cur # acc) cs
      else if c = CHR 0x0A then rev (rev cur # acc) # read_fields Unquoted [] [] cs
      else if c = CHR 0x22 \<and> cur = [] then read_fields Quoted [] acc cs
      else read_fields Unquoted (c # cur) acc cs)"
| "read_fields Quoted cur acc (c # cs) =
     (if c = CHR 0x22 then read_fields Closing cur acc cs
      else read_fields Quoted (c # cur) acc cs)"
| "read_fields Closing cur acc (c # cs) =
     (if c = CHR 0x22 then read_fields Quoted (c # cur) acc cs
      else if c = CHR '','' then read_fields Unquoted [] (rev cur # acc) cs
      else if c = CHR 0x0A then rev (rev cur # acc) # read_fields Unquoted [] [] cs
      else read_fields Unquoted (c # cur) acc cs)"

definition read_records :: "string \<Rightarrow> string list list" where
  "read_records file = read_fields Unquoted [] [] file"

subsection \<open>The schemas\<close>

text \<open>
  Cell 53 of notebook 1 (\<open>schema\<close>) and cell 16 of notebook 3 (\<open>related_schema\<close>), under the
  comment \<^verbatim>\<open># Specify the schema of your dataset here. Make sure the order of columns
  matches the raw data files.\<close>
\<close>

record SchemaAttribute =
  AttributeName :: string
  AttributeType :: string

definition schema :: "SchemaAttribute list" where
  "schema =
     [\<lparr>AttributeName = ''timestamp'', AttributeType = ''timestamp''\<rparr>,
      \<lparr>AttributeName = ''target_value'', AttributeType = ''float''\<rparr>,
      \<lparr>AttributeName = ''item_id'', AttributeType = ''string''\<rparr>]"

definition related_schema :: "SchemaAttribute list" where
  "related_schema =
     [\<lparr>AttributeName = ''timestamp'', AttributeType = ''timestamp''\<rparr>,
      \<lparr>AttributeName = ''temperature'', AttributeType = ''float''\<rparr>,
      \<lparr>AttributeName = ''rain_1h'', AttributeType = ''float''\<rparr>,
      \<lparr>AttributeName = ''snow_1h'', AttributeType = ''float''\<rparr>,
      \<lparr>AttributeName = ''clouds_all'', AttributeType = ''float''\<rparr>,
      \<lparr>AttributeName = ''weather'', AttributeType = ''string''\<rparr>,
      \<lparr>AttributeName = ''item_id'', AttributeType = ''string''\<rparr>]"

text \<open>
  Cell 44 of notebook 1:
  \<^verbatim>\<open>DATASET_FREQUENCY = "H"
  TIMESTAMP_FORMAT = "yyyy-MM-dd hh:mm:ss"\<close>
  and the request of cell 19 of notebook 3, which passes the same \<open>TIMESTAMP_FORMAT\<close>; its
  job name ends in a fresh identifier.
\<close>

definition DATASET_FREQUENCY :: string where
  "DATASET_FREQUENCY = ''H''"

definition related_time_series_filename :: string where
  "related_time_series_filename = ''related_time_series.csv''"

definition related_import_request :: "string \<Rightarrow> string \<Rightarrow> string \<Rightarrow> string \<Rightarrow> import_request" where
  "related_import_request uuid related_datasetArn bucket_name role_arn =
     \<lparr>DatasetImportJobName = ''DSIMPORT_JOB_RELATEDPOC_'' @ uuid,
      DatasetArn = related_datasetArn,
      Path = ''s3://'' @ bucket_name @ ''/'' @ related_time_series_filename,
      RoleArn = role_arn,
      TimestampFormat = TIMESTAMP_FORMAT\<rparr>"

text \<open>
  A rendering of numbers for running \<open>to_csv\<close> by hand: the whole part in decimal, followed
  by \<open>.0\<close>.
\<close>

definition sample_repr :: "rat \<Rightarrow> string" where
  "sample_repr x = decimal (nat \<lfloor>x\<rfloor>) @ ''.0''"


section \<open>Properties of the poll loop\<close>

lemma poll_loop_run:
  assumes "\<forall>i<length sts. describe_dataset_import_job forecast arn (n + i) = Inr (sts ! i)
             \<and> \<not> terminal (sts ! i)"
    and "describe_dataset_import_job forecast arn (n + length sts) = Inr st"
    and "terminal st"
  shows "poll_loop forecast arn n tr =
     Some (Inr st, tr @ concat (map (\<lambda>s. [Described arn, Printed s, Slept 30]) sts)
                      @ [Described arn, Printed st])"
  using assms
proof (induction sts arbitrary: n tr)
  case Nil
  then show ?case
    by (subst poll_loop.simps) (auto simp: terminal_def)
next
  case (Cons s sts)
  from Cons.prems(1) have h0: "describe_dataset_import_job forecast arn n = Inr s" "\<not> terminal s"
    by force+
  have h1: "\<forall>i<length sts. describe_dataset_import_job forecast arn (Suc n + i) = Inr (sts ! i)
              \<and> \<not> terminal (sts ! i)"
  proof (intro allI impI)
    fix i assume "i < length sts"
    then have "Suc i < length (s # sts)" by simp
    with Cons.prems(1)
    have "describe_dataset_import_job forecast arn (n + Suc i) = Inr ((s # sts) ! Suc i)
            \<and> \<not> terminal ((s # sts) ! Suc i)"
      by blast
    then show "describe_dataset_import_job forecast arn (Suc n + i) = Inr (sts ! i)
                 \<and> \<not> terminal (sts ! i)"
      by simp
  qed
  have h2: "describe_dataset_import_job forecast arn (Suc n + length sts) = Inr st"
    using Cons.prems(2) by simp
  have "poll_loop forecast arn n tr =
          poll_loop forecast arn (Suc n) (tr @ [Described arn, Printed s, Slept 30])"
    using h0 by (subst poll_loop.simps) (simp add: terminal_def)
  also have "\<dots> = Some (Inr st, (tr @ [Described arn, Printed s, Slept 30])
                 @ concat (map (\<lambda>s. [Described arn, Printed s, Slept 30]) sts)
                 @ [Described arn, Printed st])"
    by (rule Cons.IH [OF h1 h2 Cons.prems(3)])
  finally show ?case by simp
qed

lemma poll_loop_raises:
  assumes "\<forall>i<length sts. describe_dataset_import_job forecast arn (n + i) = Inr (sts ! i)
             \<and> \<not> terminal (sts ! i)"
    and "describe_dataset_import_job forecast arn (n + length sts) = Inl e"
  shows "poll_loop forecast arn n tr =
     Some (Inl e, tr @ concat (map (\<lambda>s. [Described arn, Printed s, Slept 30]) sts)
                      @ [Described arn])"
  using assms
proof (induction sts arbitrary: n tr)
  case Nil
  then show ?case
    by (subst poll_loop.simps) simp
next
  case (Cons s sts)
  from Cons.prems(1) have h0: "describe_dataset_import_job forecast arn n = Inr s" "\<not> terminal s"
    by force+
  have h1: "\<forall>i<length sts. describe_dataset_import_job forecast arn (Suc n + i) = Inr (sts ! i)
              \<and> \<not> terminal (sts ! i)"
  proof (intro allI impI)
    fix i assume "i < length sts"
    then have "Suc i < length (s # sts)" by simp
    with Cons.prems(1)
    have "describe_dataset_import_job forecast arn (n + Suc i) = Inr ((s # sts) ! Suc i)
            \<and> \<not> terminal ((s # sts) ! Suc i)"
      by blast
    then show "describe_dataset_import_job forecast arn (Suc n + i) = Inr (sts ! i)
                 \<and> \<not> terminal (sts ! i)"
      by simp
  qed
  have h2: "describe_dataset_import_job forecast arn (Suc n + length sts) = Inl e"
    using Cons.prems(2) by simp
  have "poll_loop forecast arn n tr =
          poll_loop forecast arn (Suc n) (tr @ [Described arn, Printed s, Slept 30])"
    using h0 by (subst poll_loop.simps) (simp add: terminal_def)
  also have "\<dots> = Some (Inl e, (tr @ [Described arn, Printed s, Slept 30])
                 @ concat (map (\<lambda>s. [Described arn, Printed s, Slept 30]) sts)
                 @ [Described arn])"
    by (rule Cons.IH [OF h1 h2])
  finally show ?case by simp
qed

lemma poll_loop_returns_terminal:
  "poll_loop forecast arn n tr = Some y \<Longrightarrow>
     (case fst y of Inl _ \<Rightarrow> True | Inr st \<Rightarrow> terminal st)"
proof (induct rule: poll_loop.raw_induct [rotated 1, consumes 1, case_names step])
  case (step pl forecast arn n tr y)
  show ?case
  proof (cases "describe_dataset_import_job forecast arn n")
    case (Inl e)
    with step(2) show ?thesis by auto
  next
    case (Inr s)
    show ?thesis
    proof (cases "terminal s")
      case True
      with Inr step(2) show ?thesis by (auto simp: terminal_def)
    next
      case False
      with Inr step(2)
      have "pl forecast arn (Suc n) (tr @ [Described arn, Printed s, Slept 30]) = Some y"
        by (auto simp: terminal_def)
      then show ?thesis by (rule step(1))
    qed
  qed
qed

lemma poll_loop_never:
  assumes "\<forall>i. \<exists>s. describe_dataset_import_job forecast arn (n + i) = Inr s \<and> \<not> terminal s"
  shows "poll_loop forecast arn n tr = None"
proof (rule ccontr)
  assume "poll_loop forecast arn n tr \<noteq> None"
  then obtain y where "poll_loop forecast arn n tr = Some y" by auto
  then have "\<exists>i. \<not> (\<exists>s. describe_dataset_import_job forecast arn (n + i) = Inr s \<and> \<not> terminal s)"
  proof (induct rule: poll_loop.raw_induct [rotated 1, consumes 1, case_names step])
    case (step pl forecast arn n tr y)
    show ?case
    proof (cases "\<exists>s. describe_dataset_import_job forecast arn n = Inr s \<and> \<not> terminal s")
      case False
      then have "\<not> (\<exists>s. describe_dataset_import_job forecast arn (n + 0) = Inr s \<and> \<not> terminal s)"
        by simp
      then show ?thesis by blast
    next
      case True
      then obtain s where s: "describe_dataset_import_job forecast arn n = Inr s" "\<not> terminal s"
        by blast
      with step(2)
      have "pl forecast arn (Suc n) (tr @ [Described arn, Printed s, Slept 30]) = Some y"
        by (auto simp: terminal_def)
      then obtain i
        where "\<not> (\<exists>s. describe_dataset_import_job forecast arn (Suc n + i) = Inr s \<and> \<not> terminal s)"
        using step(1) by blast
      then have "\<not> (\<exists>s. describe_dataset_import_job forecast arn (n + Suc i) = Inr s \<and> \<not> terminal s)"
        by simp
      then show ?thesis by blast
    qed
  qed
  with assms show False by blast
qed

lemma status_requests_rounds:
  "status_requests (tr @ concat (map (\<lambda>s. [Described arn, Printed s, Slept 30]) sts) @ tl') =
     status_requests tr + length sts + status_requests tl'"
  by (induction sts arbitrary: tr) (simp_all add: status_requests_def is_Described_def)

lemma sleeps_rounds:
  "sleeps (tr @ concat (map (\<lambda>s. [Described arn, Printed s, Slept 30]) sts) @ tl') =
     sleeps tr + length sts + sleeps tl'"
  by (induction sts arbitrary: tr) (simp_all add: sleeps_def is_Slept_def)

lemma submissions_rounds:
  "submissions (tr @ concat (map (\<lambda>s. [Described arn, Printed s, Slept 30]) sts) @ tl') =
     submissions tr + submissions tl'"
  by (induction sts arbitrary: tr) (simp_all add: submissions_def is_Created_def)

text \<open>
  Claim C4. For the status sequence PENDING, IN_PROGRESS, IN_PROGRESS, ACTIVE the loop makes
  exactly four status requests, sleeps after each of the first three and not after the
  fourth, and returns with the status ACTIVE. In general, when the first terminal status
  (\<open>ACTIVE\<close> or \<open>CREATE_FAILED\<close>) is the answer number \<open>k\<close> (counted from 0), the loop makes
  \<open>k + 1\<close> requests and \<open>k\<close> sleeps and ends with that status printed last; it returns a
  status only if that status is terminal, and it never returns when no answer is terminal.
\<close>

theorem poll_loop_stops_at_first_terminal:
  "(describe_dataset_import_job forecast arn 0 = Inr ''PENDING''
      \<and> describe_dataset_import_job forecast arn 1 = Inr ''IN_PROGRESS''
      \<and> describe_dataset_import_job forecast arn 2 = Inr ''IN_PROGRESS''
      \<and> describe_dataset_import_job forecast arn 3 = Inr ''ACTIVE''
    \<longrightarrow> poll_loop forecast arn 0 [] =
          Some (Inr ''ACTIVE'',
                [Described arn, Printed ''PENDING'', Slept 30,
                 Described arn, Printed ''IN_PROGRESS'', Slept 30,
                 Described arn, Printed ''IN_PROGRESS'', Slept 30,
                 Described arn, Printed ''ACTIVE'']))
   \<and> ((\<forall>i<length sts. describe_dataset_import_job forecast arn i = Inr (sts ! i)
                          \<and> \<not> terminal (sts ! i))
        \<and> describe_dataset_import_job forecast arn (length sts) = Inr st \<and> terminal st
    \<longrightarrow> (\<exists>tr. poll_loop forecast arn 0 [] = Some (Inr st, tr)
              \<and> status_requests tr = length sts + 1
              \<and> sleeps tr = length sts
              \<and> last tr = Printed st))
   \<and> (\<forall>tr st'. poll_loop forecast arn 0 [] = Some (Inr st', tr) \<longrightarrow> terminal st')
   \<and> ((\<forall>i. \<exists>s. describe_dataset_import_job forecast arn i = Inr s \<and> \<not> terminal s)
    \<longrightarrow> poll_loop forecast arn 0 [] = None)"
proof (intro conjI impI allI)
  assume a: "describe_dataset_import_job forecast arn 0 = Inr ''PENDING''
      \<and> describe_dataset_import_job forecast arn 1 = Inr ''IN_PROGRESS''
      \<and> describe_dataset_import_job forecast arn 2 = Inr ''IN_PROGRESS''
      \<and> describe_dataset_import_job forecast arn 3 = Inr ''ACTIVE''"
  have "\<forall>i<length [''PENDING'', ''IN_PROGRESS'', ''IN_PROGRESS''].
          describe_dataset_import_job forecast arn (0 + i) = Inr ([''PENDING'', ''IN_PROGRESS'', ''IN_PROGRESS''] ! i)
          \<and> \<not> terminal ([''PENDING'', ''IN_PROGRESS'', ''IN_PROGRESS''] ! i)"
    using a by (auto simp: less_Suc_eq terminal_def numeral_2_eq_2 numeral_3_eq_3)
  moreover have "describe_dataset_import_job forecast arn (0 + length [''PENDING'', ''IN_PROGRESS'', ''IN_PROGRESS'']) = Inr ''ACTIVE''"
    using a by (simp add: numeral_3_eq_3)
  moreover have "terminal ''ACTIVE''" by (simp add: terminal_def)
  ultimately show "poll_loop forecast arn 0 [] =
          Some (Inr ''ACTIVE'',
                [Described arn, Printed ''PENDING'', Slept 30,
                 Described arn, Printed ''IN_PROGRESS'', Slept 30,
                 Described arn, Printed ''IN_PROGRESS'', Slept 30,
                 Described arn, Printed ''ACTIVE''])"
    using poll_loop_run [of "[''PENDING'', ''IN_PROGRESS'', ''IN_PROGRESS'']" forecast arn 0 "''ACTIVE''" "[]"]
    by simp
next
  assume b: "(\<forall>i<length sts. describe_dataset_import_job forecast arn i = Inr (sts ! i)
                          \<and> \<not> terminal (sts ! i))
        \<and> describe_dataset_import_job forecast arn (length sts) = Inr st \<and> terminal st"
  let ?tr = "[] @ concat (map (\<lambda>s. [Described arn, Printed s, Slept 30]) sts) @ [Described arn, Printed st]"
  have "poll_loop forecast arn 0 [] = Some (Inr st, ?tr)"
    using b by (intro poll_loop_run) simp_all
  moreover have "status_requests ?tr = length sts + 1"
    unfolding status_requests_rounds by (simp add: status_requests_def is_Described_def)
  moreover have "sleeps ?tr = length sts"
    unfolding sleeps_rounds by (simp add: sleeps_def is_Slept_def)
  moreover have "last ?tr = Printed st" by simp
  ultimately show "\<exists>tr. poll_loop forecast arn 0 [] = Some (Inr st, tr)
              \<and> status_requests tr = length sts + 1
              \<and> sleeps tr = length sts
              \<and> last tr = Printed st"
    by blast
next
  fix tr st'
  assume "poll_loop forecast arn 0 [] = Some (Inr st', tr)"
  from poll_loop_returns_terminal [OF this] show "terminal st'" by simp
next
  assume "\<forall>i. \<exists>s. describe_dataset_import_job forecast arn i = Inr s \<and> \<not> terminal s"
  then show "poll_loop forecast arn 0 [] = None"
    by (intro poll_loop_never) simp
qed

theorem poll_loop_stops_at_first_terminal_witness:
  "describe_dataset_import_job (scripted_service [''PENDING'', ''IN_PROGRESS'', ''IN_PROGRESS'', ''ACTIVE'']) ''job'' 0 = Inr ''PENDING''
   \<and> describe_dataset_import_job (scripted_service [''PENDING'', ''IN_PROGRESS'', ''IN_PROGRESS'', ''ACTIVE'']) ''job'' 1 = Inr ''IN_PROGRESS''
   \<and> describe_dataset_import_job (scripted_service [''PENDING'', ''IN_PROGRESS'', ''IN_PROGRESS'', ''ACTIVE'']) ''job'' 2 = Inr ''IN_PROGRESS''
   \<and> describe_dataset_import_job (scripted_service [''PENDING'', ''IN_PROGRESS'', ''IN_PROGRESS'', ''ACTIVE'']) ''job'' 3 = Inr ''ACTIVE''
   \<and> terminal ''ACTIVE''
   \<and> poll_loop (scripted_service [''PENDING'', ''IN_PROGRESS'', ''IN_PROGRESS'', ''ACTIVE'']) ''job'' 0 [] =
          Some (Inr ''ACTIVE'',
                [Described ''job'', Printed ''PENDING'', Slept 30,
                 Described ''job'', Printed ''IN_PROGRESS'', Slept 30,
                 Described ''job'', Printed ''IN_PROGRESS'', Slept 30,
                 Described ''job'', Printed ''ACTIVE''])
   \<and> poll_loop (scripted_service [''CREATE_PENDING'']) ''job'' 0 [] = None"
proof -
  let ?f = "scripted_service [''PENDING'', ''IN_PROGRESS'', ''IN_PROGRESS'', ''ACTIVE'']"
  have d: "describe_dataset_import_job ?f ''job'' 0 = Inr ''PENDING''
      \<and> describe_dataset_import_job ?f ''job'' 1 = Inr ''IN_PROGRESS''
      \<and> describe_dataset_import_job ?f ''job'' 2 = Inr ''IN_PROGRESS''
      \<and> describe_dataset_import_job ?f ''job'' 3 = Inr ''ACTIVE''"
    by (simp add: scripted_service_def)
  have n: "\<forall>i. \<exists>s. describe_dataset_import_job (scripted_service [''CREATE_PENDING'']) ''job'' i = Inr s \<and> \<not> terminal s"
    by (simp add: scripted_service_def terminal_def)
  have t: "terminal ''ACTIVE''" by (simp add: terminal_def)
  show ?thesis
    using d n t
      poll_loop_stops_at_first_terminal [of ?f "''job''" "[]" "''ACTIVE''"]
      poll_loop_stops_at_first_terminal [of "scripted_service [''CREATE_PENDING'']" "''job''" "[]" "''ACTIVE''"]
    by simp
qed

text \<open>
  Claim C5, as the code has it. When the job reaches \<open>CREATE_FAILED\<close> the loop prints the
  status and ends normally, exactly as it does for \<open>ACTIVE\<close>: no error is raised. The
  submission is made once and never repeated. An exception raised by the submission or by
  a status request is not caught: it ends the run, after one submission.
\<close>

theorem submit_and_wait_failed_job:
  "(create_dataset_import_job forecast req = Inr arn
      \<and> (\<forall>i<length sts. describe_dataset_import_job forecast arn i = Inr (sts ! i)
                            \<and> \<not> terminal (sts ! i))
      \<and> describe_dataset_import_job forecast arn (length sts) = Inr ''CREATE_FAILED''
    \<longrightarrow> (\<exists>tr. submit_and_wait forecast req = Some (Inr ''CREATE_FAILED'', tr)
              \<and> submissions tr = 1
              \<and> status_requests tr = length sts + 1
              \<and> last tr = Printed ''CREATE_FAILED''))
   \<and> (create_dataset_import_job forecast req = Inl e
    \<longrightarrow> submit_and_wait forecast req = Some (Inl e, [Created req]))
   \<and> (create_dataset_import_job forecast req = Inr arn
      \<and> (\<forall>i<length sts. describe_dataset_import_job forecast arn i = Inr (sts ! i)
                            \<and> \<not> terminal (sts ! i))
      \<and> describe_dataset_import_job forecast arn (length sts) = Inl e
    \<longrightarrow> (\<exists>tr. submit_and_wait forecast req = Some (Inl e, tr) \<and> submissions tr = 1))"
proof (intro conjI impI)
  assume a: "create_dataset_import_job forecast req = Inr arn
      \<and> (\<forall>i<length sts. describe_dataset_import_job forecast arn i = Inr (sts ! i)
                            \<and> \<not> terminal (sts ! i))
      \<and> describe_dataset_import_job forecast arn (length sts) = Inr ''CREATE_FAILED''"
  let ?tr = "[Created req, Printed arn]
               @ concat (map (\<lambda>s. [Described arn, Printed s, Slept 30]) sts)
               @ [Described arn, Printed ''CREATE_FAILED'']"
  have "poll_loop forecast arn 0 [Created req, Printed arn] = Some (Inr ''CREATE_FAILED'', ?tr)"
    using a by (intro poll_loop_run) (simp_all add: terminal_def)
  then have "submit_and_wait forecast req = Some (Inr ''CREATE_FAILED'', ?tr)"
    using a by (simp add: submit_and_wait_def)
  moreover have "submissions ?tr = 1"
    unfolding submissions_rounds by (simp add: submissions_def is_Created_def)
  moreover have "status_requests ?tr = length sts + 1"
    unfolding status_requests_rounds by (simp add: status_requests_def is_Described_def)
  moreover have "last ?tr = Printed ''CREATE_FAILED''" by simp
  ultimately show "\<exists>tr. submit_and_wait forecast req = Some (Inr ''CREATE_FAILED'', tr)
              \<and> submissions tr = 1
              \<and> status_requests tr = length sts + 1
              \<and> last tr = Printed ''CREATE_FAILED''"
    by blast
next
  assume "create_dataset_import_job forecast req = Inl e"
  then show "submit_and_wait forecast req = Some (Inl e, [Created req])"
    by (simp add: submit_and_wait_def)
next
  assume a: "create_dataset_import_job forecast req = Inr arn
      \<and> (\<forall>i<length sts. describe_dataset_import_job forecast arn i = Inr (sts ! i)
                            \<and> \<not> terminal (sts ! i))
      \<and> describe_dataset_import_job forecast arn (length sts) = Inl e"
  let ?tr = "[Created req, Printed arn]
               @ concat (map (\<lambda>s. [Described arn, Printed s, Slept 30]) sts)
               @ [Described arn]"
  have "poll_loop forecast arn 0 [Created req, Printed arn] = Some (Inl e, ?tr)"
    using a by (intro poll_loop_raises) simp_all
  then have "submit_and_wait forecast req = Some (Inl e, ?tr)"
    using a by (simp add: submit_and_wait_def)
  moreover have "submissions ?tr = 1"
    unfolding submissions_rounds by (simp add: submissions_def is_Created_def)
  ultimately show "\<exists>tr. submit_and_wait forecast req = Some (Inl e, tr) \<and> submissions tr = 1"
    by blast
qed

theorem submit_and_wait_failed_job_witness:
  "(\<exists>tr. submit_and_wait (scripted_service [''CREATE_PENDING'', ''CREATE_FAILED''])
            (target_import_request ''dataset'' ''bucket'' ''role'') = Some (Inr ''CREATE_FAILED'', tr)
         \<and> submissions tr = 1 \<and> status_requests tr = 2 \<and> last tr = Printed ''CREATE_FAILED'')
   \<and> submit_and_wait refusing_service (target_import_request ''dataset'' ''bucket'' ''role'') =
       Some (Inl (ClientError ''AccessDenied''),
             [Created (target_import_request ''dataset'' ''bucket'' ''role'')])
   \<and> (\<exists>tr. submit_and_wait (raising_service [''CREATE_PENDING''])
            (target_import_request ''dataset'' ''bucket'' ''role'') = Some (Inl (ClientError ''Throttling''), tr)
         \<and> submissions tr = 1)"
proof -
  let ?req = "target_import_request ''dataset'' ''bucket'' ''role''"
  let ?f = "scripted_service [''CREATE_PENDING'', ''CREATE_FAILED'']"
  have 1: "create_dataset_import_job ?f ?req = Inr ''job''
      \<and> (\<forall>i<length [''CREATE_PENDING'']. describe_dataset_import_job ?f ''job'' i = Inr ([''CREATE_PENDING''] ! i)
                            \<and> \<not> terminal ([''CREATE_PENDING''] ! i))
      \<and> describe_dataset_import_job ?f ''job'' (length [''CREATE_PENDING'']) = Inr ''CREATE_FAILED''"
    by (simp add: scripted_service_def terminal_def)
  have 2: "create_dataset_import_job refusing_service ?req = Inl (ClientError ''AccessDenied'')"
    by (simp add: refusing_service_def)
  let ?g = "raising_service [''CREATE_PENDING'']"
  have 3: "create_dataset_import_job ?g ?req = Inr ''job''
      \<and> (\<forall>i<length [''CREATE_PENDING'']. describe_dataset_import_job ?g ''job'' i = Inr ([''CREATE_PENDING''] ! i)
                            \<and> \<not> terminal ([''CREATE_PENDING''] ! i))
      \<and> describe_dataset_import_job ?g ''job'' (length [''CREATE_PENDING'']) = Inl (ClientError ''Throttling'')"
    by (simp add: raising_service_def terminal_def)
  show ?thesis
    using 1 2 3
      submit_and_wait_failed_job [of ?f ?req "''job''" "[''CREATE_PENDING'']" "ClientError ''AccessDenied''"]
      submit_and_wait_failed_job [of refusing_service ?req "''job''" "[''CREATE_PENDING'']" "ClientError ''AccessDenied''"]
      submit_and_wait_failed_job [of ?g ?req "''job''" "[''CREATE_PENDING'']" "ClientError ''Throttling''"]
    by (simp add: numeral_2_eq_2)
qed

text \<open>
  Claim C5 as stated fails: a job that ends in \<open>CREATE_FAILED\<close> makes the run return
  normally (\<open>Inr\<close>), not with an error.
\<close>

theorem submit_and_wait_failed_job_returns_normally:
  "submit_and_wait (scripted_service [''CREATE_PENDING'', ''CREATE_FAILED''])
      (target_import_request ''dataset'' ''bucket'' ''role'') =
   Some (Inr ''CREATE_FAILED'',
         [Created (target_import_request ''dataset'' ''bucket'' ''role''), Printed ''job'',
          Described ''job'', Printed ''CREATE_PENDING'', Slept 30,
          Described ''job'', Printed ''CREATE_FAILED''])"
  by (simp add: submit_and_wait_def scripted_service_def poll_loop.simps)

section \<open>Properties of the frame operations\<close>

lemma drop_duplicates_rows_nth:
  "drop_duplicates_rows seen rs =
     map (nth rs) (filter (\<lambda>i. snd (rs ! i) \<notin> set seen \<and> (\<forall>j<i. snd (rs ! j) \<noteq> snd (rs ! i)))
                          [0..<length rs])"
proof (induction rs arbitrary: seen)
  case Nil
  show ?case by simp
next
  case (Cons r rs)
  let ?P = "\<lambda>sn i. snd ((r # rs) ! i) \<notin> set sn \<and> (\<forall>j<i. snd ((r # rs) ! j) \<noteq> snd ((r # rs) ! i))"
  let ?Q = "\<lambda>sn i. snd (rs ! i) \<notin> set sn \<and> (\<forall>j<i. snd (rs ! j) \<noteq> snd (rs ! i))"
  have upt: "[0..<length (r # rs)] = 0 # map Suc [0..<length rs]"
    by (simp add: upt_conv_Cons map_Suc_upt del: upt_Suc)
  have shift: "(\<forall>j<Suc i. snd ((r # rs) ! j) \<noteq> snd ((r # rs) ! Suc i)) \<longleftrightarrow>
                  (snd r \<noteq> snd (rs ! i) \<and> (\<forall>j<i. snd (rs ! j) \<noteq> snd (rs ! i)))" for i
    by (auto simp: less_Suc_eq_0_disj)
  have zero: "?P seen 0 \<longleftrightarrow> snd r \<notin> set seen" by simp
  have map_nth: "map ((!) (r # rs)) (map Suc xs) = map ((!) rs) xs" for xs
    by simp
  show ?case
  proof (cases "snd r \<in> set seen")
    case True
    have step: "?P seen (Suc i) \<longleftrightarrow> ?Q seen i" for i
      unfolding shift using True by auto
    have "filter (?P seen) [0..<length (r # rs)] = map Suc (filter (?Q seen) [0..<length rs])"
      unfolding upt filter.simps zero filter_map comp_def step using True by simp
    then have "map ((!) (r # rs)) (filter (?P seen) [0..<length (r # rs)]) =
               map ((!) rs) (filter (?Q seen) [0..<length rs])"
      by (simp only: map_nth)
    then show ?thesis
      using True Cons.IH [of seen] by (simp del: upt_Suc)
  next
    case False
    have step: "?P seen (Suc i) \<longleftrightarrow> ?Q (snd r # seen) i" for i
      unfolding shift by auto
    have "filter (?P seen) [0..<length (r # rs)] = 0 # map Suc (filter (?Q (snd r # seen)) [0..<length rs])"
      unfolding upt filter.simps zero filter_map comp_def step using False by simp
    then have "map ((!) (r # rs)) (filter (?P seen) [0..<length (r # rs)]) =
               r # map ((!) rs) (filter (?Q (snd r # seen)) [0..<length rs])"
      by (simp only: map_nth list.map nth_Cons_0)
    then show ?thesis
      using False Cons.IH [of "snd r # seen"] by (simp del: upt_Suc)
  qed
qed

lemma drop_duplicates_rows_id:
  "distinct (map snd rs) \<Longrightarrow> set (map snd rs) \<inter> set seen = {} \<Longrightarrow> drop_duplicates_rows seen rs = rs"
  by (induction rs arbitrary: seen) auto

lemma arange_up:
  "0 < stride \<Longrightarrow> b + (int n - 1) * stride < e \<Longrightarrow> e \<le> b + int n * stride \<Longrightarrow>
     arange b e stride = map (\<lambda>k. b + int k * stride) [0..<n]"
proof (induction n arbitrary: b)
  case 0
  then show ?case by (subst arange.simps) simp
next
  case (Suc n)
  have lt: "b < e"
  proof -
    have "0 \<le> int n * stride" using Suc.prems(1) by simp
    then show ?thesis using Suc.prems(2) by (simp add: algebra_simps)
  qed
  have 1: "(b + stride) + (int n - 1) * stride < e"
    using Suc.prems(2) by (simp add: algebra_simps)
  have 2: "e \<le> (b + stride) + int n * stride"
    using Suc.prems(3) by (simp add: algebra_simps)
  have "arange b e stride = b # arange (b + stride) e stride"
    using Suc.prems(1) lt by (subst arange.simps) simp
  also have "arange (b + stride) e stride = map (\<lambda>k. (b + stride) + int k * stride) [0..<n]"
    by (rule Suc.IH [OF Suc.prems(1) 1 2])
  also have "b # map (\<lambda>k. (b + stride) + int k * stride) [0..<n] =
             map (\<lambda>k. b + int k * stride) [0..<Suc n]"
    by (simp add: upt_conv_Cons map_Suc_upt [symmetric] algebra_simps del: upt_Suc)
  finally show ?case .
qed

lemma date_range_axis:
  assumes "0 < f" and "s \<le> e"
  shows "date_range s e f = Inr (map (\<lambda>k. s + int k * f) [0..<nat ((e - s) div f + 1)])"
proof -
  let ?q = "(e - s) div f"
  have q0: "0 \<le> ?q" using assms by (simp add: pos_imp_zdiv_nonneg_iff)
  let ?n = "nat (?q + 1)"
  have n: "int ?n = ?q + 1" using q0 by simp
  have h: "0 \<le> f div 2" "f div 2 + 1 \<le> f" using assms(1) by auto
  have 1: "s + (int ?n - 1) * f < s + ?q * f + f div 2 + 1"
    unfolding n using h by simp
  have 2: "s + ?q * f + f div 2 + 1 \<le> s + int ?n * f"
    unfolding n using h by (simp add: algebra_simps)
  show ?thesis
    using assms(1) arange_up [OF assms(1) 1 2] by (simp add: date_range_def)
qed

lemma columns_join_outer [simp]: "columns (join_outer l r) = columns l @ columns r"
  by (simp add: join_outer_def)

lemma filter_key_distinct:
  "distinct xs \<Longrightarrow> filter (\<lambda>t. t = k) xs = (if k \<in> set xs then [k] else [])"
  by (induction xs) auto

lemma cells_at_DataFrame: "distinct idx \<Longrightarrow> cells_at (DataFrame idx) k = [[]]"
  by (simp add: cells_at_def DataFrame_def filter_map comp_def filter_key_distinct nan_cells_def)

lemma join_keys_DataFrame:
  "join_keys (DataFrame idx) r = sort (remdups (idx @ map fst (rows r)))"
  by (simp add: join_keys_def DataFrame_def comp_def)

lemma rows_join_DataFrame:
  "distinct idx \<Longrightarrow>
     rows (join_outer (DataFrame idx) r) =
       concat (map (\<lambda>k. map (\<lambda>c. (k, c)) (cells_at r k)) (sort (remdups (idx @ map fst (rows r)))))"
  by (simp add: join_outer_def cells_at_DataFrame join_keys_DataFrame)

lemma cells_at_cases:
  "cells_at r k = [nan_cells r] \<and> k \<notin> fst ` set (rows r)
   \<or> cells_at r k = map snd (filter (\<lambda>x. fst x = k) (rows r)) \<and> k \<in> fst ` set (rows r)"
proof (cases "filter (\<lambda>x. fst x = k) (rows r)")
  case Nil
  then have "k \<notin> fst ` set (rows r)"
    by (auto simp: filter_empty_conv)
  with Nil show ?thesis by (simp add: cells_at_def)
next
  case (Cons x xs)
  then have "x \<in> set (filter (\<lambda>x. fst x = k) (rows r))" by simp
  then have "k \<in> fst ` set (rows r)" by auto
  with Cons show ?thesis by (simp add: cells_at_def)
qed

lemma filter_fst_absent: "k \<notin> fst ` set rs \<Longrightarrow> filter (\<lambda>y. fst y = k) rs = []"
  by (induction rs) auto

lemma filter_fst_distinct:
  "distinct (map fst rs) \<Longrightarrow> x \<in> set rs \<Longrightarrow> filter (\<lambda>y. fst y = fst x) rs = [x]"
proof (induction rs)
  case Nil
  then show ?case by simp
next
  case (Cons r rs)
  show ?case
  proof (cases "x = r")
    case True
    have "fst r \<notin> fst ` set rs" using Cons.prems(1) by simp
    then have "filter (\<lambda>y. fst y = fst r) rs = []"
      by (rule filter_fst_absent)
    with True show ?thesis by simp
  next
    case False
    with Cons.prems have x: "x \<in> set rs" by simp
    then have "fst x \<in> fst ` set rs" by (rule imageI)
    moreover have "fst r \<notin> fst ` set rs" using Cons.prems(1) by simp
    ultimately have ne: "fst r \<noteq> fst x" by metis
    have "distinct (map fst rs)" using Cons.prems(1) by simp
    then have "filter (\<lambda>y. fst y = fst x) rs = [x]" using x by (rule Cons.IH)
    with ne show ?thesis by simp
  qed
qed

lemma cells_at_distinct:
  "distinct (map fst (rows r)) \<Longrightarrow> x \<in> set (rows r) \<Longrightarrow> cells_at r (fst x) = [snd x]"
  by (simp add: cells_at_def filter_fst_distinct)

lemma length_cells_at_distinct:
  "length (cells_at r k) = 1" if "distinct (map fst (rows r))"
proof (cases "k \<in> fst ` set (rows r)")
  case True
  then obtain x where "x \<in> set (rows r)" "k = fst x" by auto
  then show ?thesis using cells_at_distinct [of r x] that by simp
next
  case False
  then show ?thesis using cells_at_cases [of r k] by auto
qed

lemma concat_map_singleton: "concat (map (\<lambda>x. [f x]) xs) = map f xs"
  by (induction xs) auto

lemma keys_join_DataFrame:
  assumes "distinct idx" and "distinct (map fst (rows r))"
  shows "map fst (rows (join_outer (DataFrame idx) r)) = sort (remdups (idx @ map fst (rows r)))"
proof -
  have "map fst (map (\<lambda>c. (k, c)) (cells_at r k)) = [k]" for k
    using length_cells_at_distinct [OF assms(2), of k]
    by (cases "cells_at r k") (auto simp: comp_def)
  then show ?thesis
    by (simp add: rows_join_DataFrame [OF assms(1)] map_concat comp_def concat_map_singleton)
qed

lemma sort_remdups_absorb:
  assumes "sorted idx" "distinct idx" "set ks \<subseteq> set idx"
  shows "sort (remdups (idx @ ks)) = idx"
proof (rule sorted_distinct_set_unique)
  show "sorted (sort (remdups (idx @ ks)))" by simp
  show "distinct (sort (remdups (idx @ ks)))" by simp
  show "sorted idx" "distinct idx" by fact+
  show "set (sort (remdups (idx @ ks))) = set idx" using assms(3) by auto
qed


lemma join_outer_regular:
  assumes "map fst (rows r) = idx" "sorted idx" "distinct idx"
  shows "join_outer (DataFrame idx) r = r"
proof -
  have d: "distinct (map fst (rows r))" using assms by simp
  have keys: "sort (remdups (idx @ map fst (rows r))) = map fst (rows r)"
    using sort_remdups_absorb [of idx "map fst (rows r)"] assms by simp
  have m: "map (\<lambda>k. map (\<lambda>c. (k, c)) (cells_at r k)) (map fst (rows r)) = map (\<lambda>x. [x]) (rows r)"
    unfolding map_map by (rule map_cong [OF refl]) (simp add: cells_at_distinct [OF d])
  have "rows (join_outer (DataFrame idx) r) =
          concat (map (\<lambda>k. map (\<lambda>c. (k, c)) (cells_at r k)) (map fst (rows r)))"
    by (simp only: rows_join_DataFrame [OF assms(3)] keys)
  also have "\<dots> = concat (map (\<lambda>x. [x]) (rows r))"
    by (simp only: m)
  also have "\<dots> = rows r" by (induction "rows r") simp_all
  finally have "rows (join_outer (DataFrame idx) r) = rows r" .
  moreover have "columns (join_outer (DataFrame idx) r) = columns r"
    by (simp add: DataFrame_def)
  ultimately show ?thesis by (intro frame.equality) simp_all
qed


lemma length_cells_at:
  assumes "well_formed r" "c \<in> set (cells_at r k)"
  shows "length c = length (columns r)"
proof (cases "k \<in> fst ` set (rows r)")
  case False
  then have "cells_at r k = [nan_cells r]" using cells_at_cases [of r k] by blast
  with assms(2) show ?thesis by (simp add: nan_cells_def)
next
  case True
  then have "cells_at r k = map snd (filter (\<lambda>x. fst x = k) (rows r))"
    using cells_at_cases [of r k] by blast
  with assms(2) obtain x where "x \<in> set (rows r)" "c = snd x" by auto
  with assms(1) show ?thesis by (simp add: well_formed_def list_all_iff)
qed

lemma well_formed_join_DataFrame:
  assumes "distinct idx" "well_formed r"
  shows "well_formed (join_outer (DataFrame idx) r)"
proof -
  have "length (snd x) = length (columns (join_outer (DataFrame idx) r))"
    if "x \<in> set (rows (join_outer (DataFrame idx) r))" for x
  proof -
    from that obtain k c where "c \<in> set (cells_at r k)" "x = (k, c)"
      unfolding rows_join_DataFrame [OF assms(1)] by auto
    then show ?thesis using length_cells_at [OF assms(2)] by (simp add: DataFrame_def)
  qed
  then show ?thesis
    unfolding well_formed_def list_all_iff by blast
qed

lemma length_fill_cells [simp]: "length (fill_cells prev cs) = length cs"
  by (induction prev cs rule: fill_cells.induct) auto

lemma fill_cells_nth:
  "j < length cs \<Longrightarrow> fill_cells prev cs ! j = (if cs ! j = NaN then cell_at prev j else cs ! j)"
proof (induction prev cs arbitrary: j rule: fill_cells.induct)
  case (1 p ps c cs)
  then show ?case by (cases j) (auto simp: cell_at_def)
next
  case (2 cs)
  then show ?case by (simp add: cell_at_def)
next
  case (3 ps)
  then show ?case by simp
qed

lemma fill_cells_no_NaN:
  "NaN \<notin> set cs \<Longrightarrow> fill_cells prev cs = cs"
  by (induction prev cs rule: fill_cells.induct) auto

lemma fill_cells_complete:
  "NaN \<notin> set prev \<Longrightarrow> length cs \<le> length prev \<Longrightarrow> NaN \<notin> set (fill_cells prev cs)"
  by (induction prev cs rule: fill_cells.induct) auto

lemma fill_cells_all_NaN:
  "length prev = n \<Longrightarrow> fill_cells prev (replicate n NaN) = prev"
proof (induction prev arbitrary: n)
  case Nil
  then show ?case by simp
next
  case (Cons p ps)
  then obtain m where "n = Suc m" by (cases n) auto
  with Cons show ?case by simp
qed

lemma length_ffill_rows [simp]: "length (ffill_rows prev rs) = length rs"
  by (induction rs arbitrary: prev) auto

lemma map_fst_ffill_rows [simp]: "map fst (ffill_rows prev rs) = map fst rs"
  by (induction rs arbitrary: prev) auto

lemma ffill_rows_eq_Nil [simp]: "ffill_rows prev rs = [] \<longleftrightarrow> rs = []"
  by (cases rs) auto

lemma ffill_rows_append:
  "ffill_rows prev (xs @ ys) =
     ffill_rows prev xs @ ffill_rows (if xs = [] then prev else snd (last (ffill_rows prev xs))) ys"
  by (induction xs arbitrary: prev) auto

lemma ffill_rows_no_NaN:
  "\<forall>r\<in>set rs. NaN \<notin> set (snd r) \<Longrightarrow> ffill_rows prev rs = rs"
  by (induction rs arbitrary: prev) (auto simp: fill_cells_no_NaN)

lemma ffill_rows_complete:
  "NaN \<notin> set prev \<Longrightarrow> \<forall>r\<in>set rs. length (snd r) = length prev \<Longrightarrow>
     \<forall>r\<in>set (ffill_rows prev rs). NaN \<notin> set (snd r)"
proof (induction rs arbitrary: prev)
  case Nil
  then show ?case by simp
next
  case (Cons r rs)
  have 1: "NaN \<notin> set (fill_cells prev (snd r))"
    using Cons.prems by (intro fill_cells_complete) auto
  have 2: "\<forall>x\<in>set rs. length (snd x) = length (fill_cells prev (snd r))"
    using Cons.prems(2) by simp
  have "\<forall>x\<in>set (ffill_rows (fill_cells prev (snd r)) rs). NaN \<notin> set (snd x)"
    using 1 2 by (rule Cons.IH)
  with 1 show ?case by simp
qed

text \<open>Once a kept row is complete, every later row is complete.\<close>

lemma filter_ffill_rows_complete:
  assumes "\<forall>r\<in>set rs. length (snd r) = n"
    and "filter Q (ffill_rows prev rs) = x # xs"
    and "NaN \<notin> set (snd x)"
  shows "\<forall>y\<in>set xs. NaN \<notin> set (snd y)"
  using assms
proof (induction rs arbitrary: prev)
  case Nil
  then show ?case by simp
next
  case (Cons r rs)
  let ?r' = "(fst r, fill_cells prev (snd r))"
  have len: "\<forall>y\<in>set rs. length (snd y) = n" using Cons.prems(1) by simp
  show ?case
  proof (cases "Q ?r'")
    case True
    with Cons.prems(2) have x: "x = ?r'" and xs: "xs = filter Q (ffill_rows (snd ?r') rs)"
      by auto
    have "NaN \<notin> set (snd ?r')" using Cons.prems(3) x by simp
    moreover have "\<forall>y\<in>set rs. length (snd y) = length (snd ?r')"
      using Cons.prems(1) by simp
    ultimately have "\<forall>y\<in>set (ffill_rows (snd ?r') rs). NaN \<notin> set (snd y)"
      by (rule ffill_rows_complete)
    then show ?thesis unfolding xs by simp
  next
    case False
    with Cons.prems(2) have "filter Q (ffill_rows (fill_cells prev (snd r)) rs) = x # xs"
      by simp
    from Cons.IH [OF len this Cons.prems(3)] show ?thesis .
  qed
qed

text \<open>The value of a cell after filling.\<close>

lemma ffill_rows_nth:
  assumes "\<forall>r\<in>set rs. length (snd r) = n" and "i < length rs" and "j < n"
  shows "snd (ffill_rows prev rs ! i) ! j =
           foldl (\<lambda>acc c. if c = NaN then acc else c) (cell_at prev j)
                 (map (\<lambda>r. snd r ! j) (take (Suc i) rs))"
  using assms
proof (induction rs arbitrary: prev i)
  case Nil
  then show ?case by simp
next
  case (Cons r rs)
  have j: "j < length (snd r)" using Cons.prems(1,3) by simp
  have first: "fill_cells prev (snd r) ! j = (if snd r ! j = NaN then cell_at prev j else snd r ! j)"
    by (rule fill_cells_nth [OF j])
  show ?case
  proof (cases i)
    case 0
    then show ?thesis using first by simp
  next
    case (Suc i')
    have len: "\<forall>y\<in>set rs. length (snd y) = n" using Cons.prems(1) by simp
    have i': "i' < length rs" using Cons.prems(2) Suc by simp
    have c: "cell_at (fill_cells prev (snd r)) j = fill_cells prev (snd r) ! j"
      using j by (simp add: cell_at_def)
    show ?thesis
      unfolding Suc using Cons.IH [OF len i' Cons.prems(3), of "fill_cells prev (snd r)"] first c
      by simp
  qed
qed

lemma foldl_fill_most_recent:
  "foldl (\<lambda>acc c. if c = NaN then acc else c) a (map (\<lambda>c. if c = Str [] then NaN else c) col) =
     (case filter (\<lambda>c. c \<noteq> NaN \<and> c \<noteq> Str []) col of [] \<Rightarrow> a | vs \<Rightarrow> last vs)"
proof (induction col rule: rev_induct)
  case Nil
  show ?case by simp
next
  case (snoc c col)
  show ?case
  proof (cases "c \<noteq> NaN \<and> c \<noteq> Str []")
    case True
    then show ?thesis
      by (cases "filter (\<lambda>c. c \<noteq> NaN \<and> c \<noteq> Str []) col") simp_all
  next
    case False
    then show ?thesis using snoc.IH by auto
  qed
qed

lemma cell_at_Nil: "cell_at [] j = NaN"
  by (simp add: cell_at_def)

lemma rows_replace_empty:
  "rows (replace_empty df) = map (\<lambda>r. (fst r, map (\<lambda>c. if c = Str [] then NaN else c) (snd r))) (rows df)"
  by (simp add: replace_empty_def)

lemma columns_replace_empty [simp]: "columns (replace_empty df) = columns df"
  by (simp add: replace_empty_def)

lemma rows_ffill: "rows (ffill df) = ffill_rows [] (rows df)"
  by (simp add: ffill_def)

lemma columns_ffill [simp]: "columns (ffill df) = columns df"
  by (simp add: ffill_def)

lemma related_cell4_unfold:
  "related_cell4 p st =
     loc_from (slice_from p) (ffill (replace_empty (join_outer (full_df st) (target_df st))))"
  by (simp add: related_cell4_def Let_def)

lemma ffill_replace_empty_cell:
  assumes "well_formed df" and "i < length (rows df)" and "j < length (columns df)"
  shows "snd (rows (ffill (replace_empty df)) ! i) ! j =
           most_recent_value (map (\<lambda>r. snd r ! j) (take (Suc i) (rows df)))"
proof -
  let ?repl = "\<lambda>c. if c = Str [] then NaN else c"
  let ?rs = "map (\<lambda>r. (fst r, map ?repl (snd r))) (rows df)"
  have len: "\<forall>r\<in>set ?rs. length (snd r) = length (columns df)"
    using assms(1) by (auto simp: well_formed_def list_all_iff)
  have i: "i < length ?rs" using assms(2) by simp
  have col: "map (\<lambda>r. snd r ! j) (take (Suc i) ?rs) =
             map ?repl (map (\<lambda>r. snd r ! j) (take (Suc i) (rows df)))"
  proof -
    have "snd r ! j = ?repl (snd x ! j)"
      if "x \<in> set (take (Suc i) (rows df))" "r = (fst x, map ?repl (snd x))" for x r
    proof -
      from that(1) have "x \<in> set (rows df)" by (rule in_set_takeD)
      with assms(1,3) have "j < length (snd x)" by (simp add: well_formed_def list_all_iff)
      with that(2) show ?thesis by simp
    qed
    then show ?thesis by (simp add: take_map comp_def)
  qed
  have "snd (ffill_rows [] ?rs ! i) ! j =
          foldl (\<lambda>acc c. if c = NaN then acc else c) (cell_at [] j)
                (map (\<lambda>r. snd r ! j) (take (Suc i) ?rs))"
    by (rule ffill_rows_nth [OF len i assms(3)])
  also have "\<dots> = most_recent_value (map (\<lambda>r. snd r ! j) (take (Suc i) (rows df)))"
    unfolding col foldl_fill_most_recent most_recent_value_def cell_at_Nil ..
  finally show ?thesis by (simp add: rows_ffill rows_replace_empty)
qed

lemma date_range_three_hours: "date_range 0 7200 3600 = Inr [0, 3600, 7200]"
  by (simp add: date_range_def arange.simps)

lemma notebook1_sample: "notebook1 three_hours sample_input = Inr sample_store"
  by (simp add: notebook1_def cell12_def cell14_def cell15_def cell17_def cell30_def cell32_def
      cell35_def cell37_def cell40_def three_hours_def sample_input_def sample_store_def
      date_range_three_hours drop_duplicates_def original_def observation_def original_columns_def
      DataFrame_def join_outer_def join_keys_def cells_at_def nan_cells_def loc_from_def
      loc_between_def getitem_def setitem_new_def cell_at_def Let_def numeral_eq_Suc)

lemma arange_bounds:
  "x \<in> set (arange b e s) \<Longrightarrow> (0 < s \<longrightarrow> b \<le> x) \<and> (s < 0 \<longrightarrow> x \<le> b)"
proof (induction b e s rule: arange.induct)
  case (1 b e stride)
  from "1.prems" show ?case
    by (subst (asm) arange.simps) (use "1.IH" in \<open>auto split: if_splits\<close>)
qed

lemma distinct_arange: "distinct (arange b e s)"
proof (induction b e s rule: arange.induct)
  case (1 b e stride)
  show ?case
    by (subst arange.simps) (use "1.IH" arange_bounds [of b "b + stride" e stride] in \<open>auto\<close>)
qed

lemma distinct_date_range: "date_range s e f = Inr idx \<Longrightarrow> distinct idx"
  by (auto simp: date_range_def distinct_arange split: if_splits)

lemma well_formed_drop_duplicates: "well_formed df \<Longrightarrow> well_formed (drop_duplicates df)"
proof -
  have "set (drop_duplicates_rows seen rs) \<subseteq> set rs" for seen rs
    by (induction rs arbitrary: seen) auto
  then show "well_formed df \<Longrightarrow> well_formed (drop_duplicates df)"
    by (auto simp: well_formed_def list_all_iff drop_duplicates_def)
qed

lemma well_formed_loc_from: "well_formed df \<Longrightarrow> well_formed (loc_from lo df)"
  by (auto simp: well_formed_def list_all_iff loc_from_def)

lemma notebook1_store:
  assumes "notebook1 p original_data = Inr st"
  shows "\<exists>idx. cell14 p = Inr idx \<and> full_df st = DataFrame idx
           \<and> full_historical_df st = join_outer (DataFrame idx) (drop_duplicates original_data)
           \<and> target_df st = loc_from (slice_from p) (full_historical_df st)"
  using assms
  by (auto simp: notebook1_def Let_def cell12_def cell15_def cell17_def cell30_def cell32_def
      split: sum.splits)

lemma notebook1_well_formed:
  assumes "notebook1 p original_data = Inr st" and "well_formed original_data"
  shows "well_formed (join_outer (full_df st) (target_df st))"
proof -
  from notebook1_store [OF assms(1)] obtain idx where
    idx: "cell14 p = Inr idx" and f: "full_df st = DataFrame idx"
    and h: "full_historical_df st = join_outer (DataFrame idx) (drop_duplicates original_data)"
    and t: "target_df st = loc_from (slice_from p) (full_historical_df st)"
    by metis
  have d: "distinct idx" using idx by (auto simp: cell14_def dest: distinct_date_range)
  have "well_formed (full_historical_df st)"
    unfolding h by (intro well_formed_join_DataFrame d well_formed_drop_duplicates assms(2))
  then have "well_formed (target_df st)"
    unfolding t by (rule well_formed_loc_from)
  then show ?thesis
    unfolding f by (intro well_formed_join_DataFrame d)
qed

lemma related_cell4_null_iff:
  assumes "well_formed J"
  shows "any_null (loc_from lo (ffill (replace_empty J))) \<longleftrightarrow>
           (case rows (loc_from lo (ffill (replace_empty J))) of [] \<Rightarrow> False | r # _ \<Rightarrow> row_isnull r)"
proof -
  let ?rs = "rows (replace_empty J)"
  let ?out = "filter (\<lambda>r. lo \<le> fst r) (ffill_rows [] ?rs)"
  have out: "rows (loc_from lo (ffill (replace_empty J))) = ?out"
    by (simp add: loc_from_def rows_ffill)
  have len: "\<forall>r\<in>set ?rs. length (snd r) = length (columns J)"
    using assms by (auto simp: well_formed_def list_all_iff rows_replace_empty)
  show ?thesis
  proof (cases ?out)
    case Nil
    then show ?thesis unfolding any_null_def out by simp
  next
    case (Cons x xs)
    show ?thesis
    proof (cases "row_isnull x")
      case True
      then show ?thesis unfolding any_null_def out Cons by simp
    next
      case False
      then have "NaN \<notin> set (snd x)" by (simp add: row_isnull_def)
      with len Cons have "\<forall>y\<in>set xs. NaN \<notin> set (snd y)"
        by (rule filter_ffill_rows_complete)
      then show ?thesis
        unfolding any_null_def out Cons using False by (simp add: list_ex_iff row_isnull_def)
    qed
  qed
qed

lemma sorted_arange: "0 < s \<Longrightarrow> sorted (arange b e s)"
proof (induction b e s rule: arange.induct)
  case (1 b e stride)
  have "b \<le> x" if "x \<in> set (arange (b + stride) e stride)" for x
    using arange_bounds [OF that] "1.prems" by simp
  then show ?case
    by (subst arange.simps) (use "1.IH" "1.prems" in \<open>auto\<close>)
qed

lemma sorted_date_range: "0 < f \<Longrightarrow> date_range s e f = Inr idx \<Longrightarrow> sorted idx"
  by (auto simp: date_range_def sorted_arange split: if_splits)

lemma cells_at_not_Nil: "cells_at r k \<noteq> []"
proof (cases "k \<in> fst ` set (rows r)")
  case True
  then obtain x where x: "x \<in> set (rows r)" "fst x = k" by auto
  then have "x \<in> set (filter (\<lambda>x. fst x = k) (rows r))" by simp
  then have "filter (\<lambda>x. fst x = k) (rows r) \<noteq> []" by (metis empty_iff empty_set)
  moreover have "cells_at r k = map snd (filter (\<lambda>x. fst x = k) (rows r))"
    using True cells_at_cases [of r k] by metis
  ultimately show ?thesis by simp
next
  case False
  then have "cells_at r k = [nan_cells r]" using cells_at_cases [of r k] by metis
  then show ?thesis by simp
qed

lemma set_keys_join_DataFrame:
  assumes "distinct idx"
  shows "set (map fst (rows (join_outer (DataFrame idx) r))) = set idx \<union> fst ` set (rows r)"
proof -
  have "set (map fst (map (\<lambda>c. (k, c)) (cells_at r k))) = {k}" for k
    using cells_at_not_Nil [of r k] by (cases "cells_at r k") (auto simp: comp_def)
  then have "set (map fst (rows (join_outer (DataFrame idx) r))) =
               set (sort (remdups (idx @ map fst (rows r))))"
    unfolding rows_join_DataFrame [OF assms] map_concat map_map comp_def set_concat
    by auto
  then show ?thesis by auto
qed

lemma drop_duplicates_distinct:
  "distinct (map snd (rows df)) \<Longrightarrow> drop_duplicates df = df"
  by (simp add: drop_duplicates_def drop_duplicates_rows_id)

lemma loc_from_all:
  "\<forall>r\<in>set (rows df). lo \<le> fst r \<Longrightarrow> loc_from lo df = df"
  by (simp add: loc_from_def)

lemma replace_empty_none:
  assumes "\<forall>r\<in>set (rows df). Str [] \<notin> set (snd r)"
  shows "replace_empty df = df"
proof -
  have "map (\<lambda>c. if c = Str [] then NaN else c) cs = cs" if "Str [] \<notin> set cs" for cs
    using that by (induction cs) auto
  then have "map (\<lambda>r. (fst r, map (\<lambda>c. if c = Str [] then NaN else c) (snd r))) (rows df) = rows df"
    using assms by (simp add: map_idI)
  then show ?thesis by (simp add: replace_empty_def)
qed

lemma ffill_complete:
  "\<forall>r\<in>set (rows df). NaN \<notin> set (snd r) \<Longrightarrow> ffill df = df"
  by (simp add: ffill_def ffill_rows_no_NaN)

lemma date_range_lower:
  assumes "0 < f" and "date_range s e f = Inr idx" and "k \<in> set idx"
  shows "s \<le> k"
  using assms arange_bounds [of k s _ f] by (auto simp: date_range_def split: if_splits)

lemma notebook1_regular: "notebook1 three_hours regular_input = Inr regular_store"
  by code_simp

subsection \<open>Files\<close>

lemma concat_chunks_of: "0 < n \<Longrightarrow> concat (chunks_of n xs) = xs"
proof (induction n xs rule: chunks_of.induct)
  case (1 n)
  show ?case by (simp add: chunks_of.simps)
next
  case (2 n x xs)
  then have "concat (chunks_of n (drop n (x # xs))) = drop n (x # xs)" by simp
  with 2 show ?case by (simp add: chunks_of.simps del: drop_Suc_Cons)
qed

lemma length_format_index [simp]: "length (format_index ts) = length ts"
  by (simp add: format_index_def)

lemma length_render_cells [simp]: "length (render_cells repr dtypes cs) = length cs"
  by (induction repr dtypes cs rule: render_cells.induct) simp_all

lemma render_cells_eq_Nil [simp]: "render_cells repr dtypes cs = [] \<longleftrightarrow> cs = []"
  by (induction repr dtypes cs rule: render_cells.induct) simp_all

lemma last_render_cells:
  "cs \<noteq> [] \<Longrightarrow> last cs = Str s \<Longrightarrow> last (render_cells repr dtypes cs) = s"
  by (induction repr dtypes cs rule: render_cells.induct) (auto simp: render_cell_def)

lemma length_chunk_records [simp]: "length (chunk_records repr dtypes chunk) = length chunk"
  by (simp add: chunk_records_def)

lemma map_snd_zip_same_length: "length xs = length ys \<Longrightarrow> map (\<lambda>x. f (snd x)) (zip xs ys) = map f ys"
  by (induction xs ys rule: list_induct2) auto

lemma map_tl_chunk_records:
  "map tl (chunk_records repr dtypes chunk) = map (\<lambda>r. render_cells repr dtypes (snd r)) chunk"
proof -
  have "map tl (chunk_records repr dtypes chunk) =
          map (\<lambda>x. (\<lambda>r. render_cells repr dtypes (snd r)) (snd x)) (zip (format_index (map fst chunk)) chunk)"
    by (simp add: chunk_records_def comp_def case_prod_unfold)
  also have "\<dots> = map (\<lambda>r. render_cells repr dtypes (snd r)) chunk"
    by (rule map_snd_zip_same_length) simp
  finally show ?thesis .
qed

lemma chunksize_pos: "0 < chunksize df"
  by (simp add: chunksize_def)

lemma map_tl_to_csv_records:
  "map tl (to_csv_records repr dtypes df) = map (\<lambda>r. render_cells repr dtypes (snd r)) (rows df)"
proof -
  have "map tl (to_csv_records repr dtypes df) =
          concat (map (map (\<lambda>r. render_cells repr dtypes (snd r))) (chunks_of (chunksize df) (rows df)))"
    by (simp add: to_csv_records_def map_concat comp_def map_tl_chunk_records)
  also have "\<dots> = map (\<lambda>r. render_cells repr dtypes (snd r)) (concat (chunks_of (chunksize df) (rows df)))"
    by (simp add: map_concat)
  finally show ?thesis by (simp add: concat_chunks_of chunksize_pos)
qed

lemma length_to_csv_records: "length (to_csv_records repr dtypes df) = length (rows df)"
  using arg_cong [OF map_tl_to_csv_records, of length repr dtypes df] by simp

lemma record_not_Nil: "rec \<in> set (to_csv_records repr dtypes df) \<Longrightarrow> rec \<noteq> []"
  by (auto simp: to_csv_records_def chunk_records_def)

lemma tl_record_in_rows:
  assumes "rec \<in> set (to_csv_records repr dtypes df)"
  shows "\<exists>r\<in>set (rows df). tl rec = render_cells repr dtypes (snd r)"
proof -
  from assms have "tl rec \<in> set (map tl (to_csv_records repr dtypes df))" by simp
  then show ?thesis unfolding map_tl_to_csv_records by auto
qed

text \<open>The frames written to the files.\<close>

lemma getitem_Inr:
  assumes "getitem df names = Inr out"
  shows "columns out = names \<and> (\<forall>r\<in>set (rows out). length (snd r) = length names)"
  using assms by (auto simp: getitem_def split: list.splits)

lemma cell37_Inr:
  assumes "cell37 df = Inr out"
  shows "columns out = [''traffic_volume'', ''item_ID'']
       \<and> (\<forall>r\<in>set (rows out). length (snd r) = 2 \<and> last (snd r) = Str ''1'')"
proof -
  from assms obtain sel where sel: "getitem df [''traffic_volume''] = Inr sel"
    and out: "out = setitem_new sel ''item_ID'' (Str ''1'')"
    by (auto simp: cell37_def split: sum.splits)
  from getitem_Inr [OF sel] show ?thesis
    unfolding out by (auto simp: setitem_new_def)
qed

lemma related_cell11_Inr:
  assumes "related_cell11 df = Inr out"
  shows "columns out = [''temp'', ''rain_1h'', ''snow_1h'', ''clouds_all'', ''weather_description'',
                        ''item_ID'']
       \<and> (\<forall>r\<in>set (rows out). length (snd r) = 6 \<and> last (snd r) = Str ''1'')"
proof -
  from assms obtain sel where
    sel: "getitem df [''temp'', ''rain_1h'', ''snow_1h'', ''clouds_all'', ''weather_description''] = Inr sel"
    and out: "out = setitem_new sel ''item_ID'' (Str ''1'')"
    by (auto simp: related_cell11_def split: sum.splits)
  from getitem_Inr [OF sel] show ?thesis
    unfolding out by (auto simp: setitem_new_def)
qed

lemma notebook1_files:
  assumes "notebook1 p original_data = Inr st"
  shows "\<exists>df df'. cell37 df = Inr (target_time_series_df st)
           \<and> cell37 df' = Inr (validation_time_series_df st)"
  using assms
  by (auto simp: notebook1_def Let_def split: sum.splits)

lemma records_shape:
  assumes "\<forall>r\<in>set (rows df). length (snd r) = n \<and> last (snd r) = Str ''1''" and "0 < n"
    and "rec \<in> set (to_csv_records repr dtypes df)"
  shows "length rec = Suc n \<and> last rec = ''1''"
proof -
  from tl_record_in_rows [OF assms(3)] obtain r where
    r: "r \<in> set (rows df)" "tl rec = render_cells repr dtypes (snd r)"
    by auto
  from r(1) assms(1) have len: "length (snd r) = n" and l: "last (snd r) = Str ''1''" by auto
  from len assms(2) have ne: "snd r \<noteq> []" by auto
  have "rec \<noteq> []" using assms(3) by (rule record_not_Nil)
  then obtain ix where rec: "rec = ix # tl rec" by (cases rec) auto
  have "length (tl rec) = n" using r(2) len by simp
  moreover have "last (tl rec) = ''1''"
    unfolding r(2) using ne l by (rule last_render_cells)
  moreover have "tl rec \<noteq> []" using r(2) ne by simp
  ultimately show ?thesis by (subst rec, subst (2) rec) simp
qed

text \<open>Lines without quotes split at the commas into their fields.\<close>

lemma split_fields_not_Nil [simp]: "split_fields s \<noteq> []"
  by (induction s) (auto split: list.splits)

lemma split_fields_plain:
  "CHR '','' \<notin> set f \<Longrightarrow> split_fields (f @ CHR '','' # s) = f # split_fields s"
  by (induction f) auto

lemma split_fields_last: "CHR '','' \<notin> set f \<Longrightarrow> split_fields f = [f]"
  by (induction f) auto

lemma split_join_fields:
  "fs \<noteq> [] \<Longrightarrow> \<forall>f\<in>set fs. CHR '','' \<notin> set f \<Longrightarrow> split_fields (join_fields fs) = fs"
proof (induction fs rule: join_fields.induct)
  case 1
  then show ?case by simp
next
  case (2 f)
  then show ?case by (simp add: split_fields_last)
next
  case (3 f g fs)
  then show ?case by (simp add: split_fields_plain)
qed

lemma quote_field_plain: "\<not> needs_quotes f \<Longrightarrow> quote_field f = f"
  by (simp add: quote_field_def)

lemma csv_line_plain:
  assumes "fs \<noteq> []" and "\<forall>f\<in>set fs. \<not> needs_quotes f"
  shows "csv_line fs = join_fields fs @ [CHR 0x0A] \<and> split_fields (join_fields fs) = fs"
proof -
  have "map quote_field fs = fs"
    using assms(2) by (simp add: map_idI quote_field_plain)
  moreover have "\<forall>f\<in>set fs. CHR '','' \<notin> set f"
    using assms(2) by (auto simp: needs_quotes_def list_ex_iff)
  ultimately show ?thesis
    using assms(1) by (simp add: csv_line_def split_join_fields)
qed

lemma map_hd_chunk_records:
  "map hd (chunk_records repr dtypes chunk) = format_index (map fst chunk)"
proof -
  have "map (\<lambda>x. fst x) (zip (format_index (map fst chunk)) chunk) = format_index (map fst chunk)"
    by (simp add: map_fst_zip)
  then show ?thesis
    by (simp add: chunk_records_def comp_def case_prod_unfold)
qed

lemma map_hd_to_csv_records:
  "map hd (to_csv_records repr dtypes df) =
     concat (map (\<lambda>chunk. format_index (map fst chunk)) (chunks_of (chunksize df) (rows df)))"
  by (simp add: to_csv_records_def map_concat comp_def map_hd_chunk_records)

lemma file_shape:
  assumes "\<forall>r\<in>set (rows df). length (snd r) = n \<and> last (snd r) = Str ''1''" and "0 < n"
  shows "length (to_csv_records repr dtypes df) = length (rows df)
       \<and> map hd (to_csv_records repr dtypes df) =
           concat (map (\<lambda>chunk. format_index (map fst chunk)) (chunks_of (chunksize df) (rows df)))
       \<and> map tl (to_csv_records repr dtypes df) = map (\<lambda>r. render_cells repr dtypes (snd r)) (rows df)
       \<and> (\<forall>fs\<in>set (to_csv_records repr dtypes df). length fs = Suc n \<and> last fs = ''1'')"
  using records_shape [OF assms]
  by (simp add: length_to_csv_records map_hd_to_csv_records map_tl_to_csv_records)

lemma notebook3_sample:
  "notebook3 three_hours sample_store =
     Inr \<lparr>columns = [''temp'', ''rain_1h'', ''snow_1h'', ''clouds_all'', ''weather_description'',
                     ''item_ID''],
          rows = [(0, [Num 288, Num 0, Num 0, Num 40, Str ''mist'', Str ''1'']),
                  (3600, [Num 288, Num 0, Num 0, Num 40, Str ''mist'', Str ''1'']),
                  (7200, [Num 289, Num 0, Num 0, Num 40, Str ''mist'', Str ''1''])]\<rparr>"
  by code_simp

lemma chunks_of_single: "xs \<noteq> [] \<Longrightarrow> length xs \<le> n \<Longrightarrow> chunks_of n xs = [xs]"
  by (cases xs) (auto simp: chunks_of.simps)

lemma sample_repr_5545: "sample_repr 5545 = ''5545.0''"
  by (simp add: sample_repr_def decimal.simps digit_def)

lemma format_index_two_hours: "format_index [0, 3600] = [''1970-01-01 00:00:00'', ''1970-01-01 01:00:00'']"
  by code_simp

lemma to_csv_records_sample:
  "to_csv_records sample_repr [float64, object] (target_time_series_df sample_store) =
       [[''1970-01-01 00:00:00'', ''5545.0'', ''1''], [''1970-01-01 01:00:00'', [], ''1'']]"
proof -
  have r: "rows (target_time_series_df sample_store) = [(0, [Num 5545, Str ''1'']), (3600, [NaN, Str ''1''])]"
    by (simp add: sample_store_def)
  have c: "chunksize (target_time_series_df sample_store) = 50000"
  proof -
    have "length (columns (target_time_series_df sample_store)) = 2"
      by (simp add: sample_store_def)
    then have "chunksize (target_time_series_df sample_store) = max 1 (100000 div max 1 2)"
      by (simp only: chunksize_def)
    also have "\<dots> = 50000" by (simp add: max_def)
    finally show ?thesis .
  qed
  have "chunks_of 50000 [(0::int, [Num 5545, Str ''1'']), (3600, [NaN, Str ''1''])] =
          [[(0, [Num 5545, Str ''1'']), (3600, [NaN, Str ''1''])]]"
    by (rule chunks_of_single) simp_all
  then show ?thesis
    unfolding to_csv_records_def r c
    by (simp add: chunk_records_def format_index_two_hours render_cell_def sample_repr_5545)
qed

lemma to_csv_sample:
  "to_csv sample_repr [float64, object] (target_time_series_df sample_store) =
       ''1970-01-01 00:00:00,5545.0,1'' @ [CHR 0x0A] @ ''1970-01-01 01:00:00,,1'' @ [CHR 0x0A]"
  unfolding to_csv_def to_csv_records_sample
  by (simp add: csv_line_def quote_field_def needs_quotes_def)

text \<open>The reference reader gives back the records that were written.\<close>

lemma read_fields_plain:
  "\<not> needs_quotes s \<Longrightarrow>
     read_fields Unquoted cur acc (s @ rest) = read_fields Unquoted (rev s @ cur) acc rest"
proof (induction s arbitrary: cur)
  case Nil
  then show ?case by simp
next
  case (Cons c s)
  from Cons.prems have c: "c \<noteq> CHR '',''" "c \<noteq> CHR 0x22" "c \<noteq> CHR 0x0A" and s: "\<not> needs_quotes s"
    by (auto simp: needs_quotes_def)
  show ?case using c Cons.IH [OF s, of "c # cur"] by simp
qed

lemma read_fields_quoted:
  "read_fields Quoted cur acc
     (concat (map (\<lambda>c. if c = CHR 0x22 then [c, c] else [c]) s) @ CHR 0x22 # rest) =
   read_fields Closing (rev s @ cur) acc rest"
  by (induction s arbitrary: cur) simp_all

lemma read_fields_field_comma:
  "read_fields Unquoted [] acc (quote_field s @ CHR '','' # rest) = read_fields Unquoted [] (s # acc) rest"
proof (cases "needs_quotes s")
  case True
  then have "read_fields Unquoted [] acc (quote_field s @ CHR '','' # rest) =
               read_fields Closing (rev s) acc (CHR '','' # rest)"
    using read_fields_quoted [of "[]" acc s "CHR '','' # rest"] by (simp add: quote_field_def)
  then show ?thesis by simp
next
  case False
  then show ?thesis
    using read_fields_plain [OF False, of "[]" acc "CHR '','' # rest"] by (simp add: quote_field_def)
qed

lemma read_fields_field_newline:
  "read_fields Unquoted [] acc (quote_field s @ CHR 0x0A # rest) =
     rev (s # acc) # read_fields Unquoted [] [] rest"
proof (cases "needs_quotes s")
  case True
  then have "read_fields Unquoted [] acc (quote_field s @ CHR 0x0A # rest) =
               read_fields Closing (rev s) acc (CHR 0x0A # rest)"
    using read_fields_quoted [of "[]" acc s "CHR 0x0A # rest"] by (simp add: quote_field_def)
  then show ?thesis by simp
next
  case False
  then show ?thesis
    using read_fields_plain [OF False, of "[]" acc "CHR 0x0A # rest"] by (simp add: quote_field_def)
qed

lemma read_fields_line:
  "fs \<noteq> [] \<Longrightarrow>
     read_fields Unquoted [] acc (csv_line fs @ rest) = (rev acc @ fs) # read_fields Unquoted [] [] rest"
proof (induction fs arbitrary: acc)
  case Nil
  then show ?case by simp
next
  case (Cons f fs)
  show ?case
  proof (cases fs)
    case Nil
    then show ?thesis by (simp add: csv_line_def read_fields_field_newline)
  next
    case (Cons g gs)
    then have "fs \<noteq> []" by simp
    from Cons.IH [OF this, of "f # acc"] Cons show ?thesis
      by (simp add: csv_line_def read_fields_field_comma)
  qed
qed

lemma read_fields_lines:
  "[] \<notin> set recs \<Longrightarrow>
     read_fields Unquoted [] [] (concat (map csv_line recs) @ rest) = recs @ read_fields Unquoted [] [] rest"
proof (induction recs)
  case Nil
  then show ?case by simp
next
  case (Cons r recs)
  then have "r \<noteq> []" "[] \<notin> set recs" by auto
  then show ?case using Cons.IH by (simp add: read_fields_line)
qed

lemma read_records_lines: "[] \<notin> set recs \<Longrightarrow> read_records (concat (map csv_line recs)) = recs"
  using read_fields_lines [of recs "[]"] by (simp add: read_records_def)

lemma read_records_to_csv: "read_records (to_csv repr dtypes df) = to_csv_records repr dtypes df"
  unfolding to_csv_def
proof (rule read_records_lines)
  show "[] \<notin> set (to_csv_records repr dtypes df)"
    using record_not_Nil [of "[]" repr dtypes df] by blast
qed

text \<open>The two kinds of number side by side, and a string that holds a comma.\<close>

lemma render_cells_by_dtype:
  "render_cells sample_repr [float64, int64, object] [Num 0, Num 0, Str ''mist''] =
     [''0.0'', ''0'', ''mist'']"
  by (simp add: render_cell_def sample_repr_def str_int_def decimal.simps digit_def)

lemma csv_line_quotes:
  "csv_line [''2017-01-01'', ''rain, then snow'', ''1''] =
     ''2017-01-01,'' @ [CHR 0x22] @ ''rain, then snow'' @ [CHR 0x22] @ '',1'' @ [CHR 0x0A]"
  by (simp add: csv_line_def quote_field_def needs_quotes_def)

text \<open>The validation file of the gap-free input, whose column of values is of type \<open>int64\<close>.\<close>

lemma notebook3_regular:
  "notebook3 three_hours regular_store =
     Inr \<lparr>columns = [''temp'', ''rain_1h'', ''snow_1h'', ''clouds_all'', ''weather_description'',
                     ''item_ID''],
          rows = [(0, [Num 288, Num 0, Num 0, Num 40, Str ''mist'', Str ''1'']),
                  (3600, [Num 289, Num 0, Num 0, Num 40, Str ''mist'', Str ''1'']),
                  (7200, [Num 290, Num 0, Num 0, Num 40, Str ''mist'', Str ''1''])]\<rparr>"
  by code_simp

lemma format_index_third_hour: "format_index [7200] = [''1970-01-01 02:00:00'']"
  by code_simp

lemma str_int_4767: "str_int 4767 = ''4767''"
  by (simp add: str_int_def decimal.simps digit_def)

lemma to_csv_regular:
  "to_csv sample_repr [int64, object] (validation_time_series_df regular_store) =
     ''1970-01-01 02:00:00,4767,1'' @ [CHR 0x0A]"
proof -
  have r: "rows (validation_time_series_df regular_store) = [(7200, [Num 4767, Str ''1''])]"
    by (simp add: regular_store_def)
  have c: "chunksize (validation_time_series_df regular_store) = 50000"
  proof -
    have "length (columns (validation_time_series_df regular_store)) = 2"
      by (simp add: regular_store_def)
    then have "chunksize (validation_time_series_df regular_store) = max 1 (100000 div max 1 2)"
      by (simp only: chunksize_def)
    also have "\<dots> = 50000" by (simp add: max_def)
    finally show ?thesis .
  qed
  have "chunks_of 50000 [(7200::int, [Num 4767, Str ''1''])] = [[(7200, [Num 4767, Str ''1''])]]"
    by (rule chunks_of_single) simp_all
  then have "to_csv_records sample_repr [int64, object] (validation_time_series_df regular_store) =
               [[''1970-01-01 02:00:00'', ''4767'', ''1'']]"
    unfolding to_csv_records_def r c
    by (simp add: chunk_records_def format_index_third_hour render_cell_def str_int_4767)
  then show ?thesis
    unfolding to_csv_def
    by (simp add: csv_line_def quote_field_def needs_quotes_def)
qed

subsection \<open>The related frame for an input with distinct time stamps\<close>

lemma cells_at_absent: "k \<notin> fst ` set (rows r) \<Longrightarrow> cells_at r k = [nan_cells r]"
  using cells_at_cases [of r k] by metis

lemma rows_join_DataFrame_distinct:
  assumes "distinct idx" and "distinct (map fst (rows r))"
  shows "rows (join_outer (DataFrame idx) r) =
           map (\<lambda>k. (k, hd (cells_at r k))) (sort (remdups (idx @ map fst (rows r))))"
proof -
  have "map (\<lambda>c. (k, c)) (cells_at r k) = [(k, hd (cells_at r k))]" for k
    using length_cells_at_distinct [OF assms(2), of k] by (cases "cells_at r k") auto
  then show ?thesis
    unfolding rows_join_DataFrame [OF assms(1)] by (simp add: concat_map_singleton)
qed

lemma filter_map_key:
  "filter (\<lambda>r. P (fst r)) (map (\<lambda>k. (k, f k)) ks) = map (\<lambda>k. (k, f k)) (filter P ks)"
  by (induction ks) auto

lemma ffill_rows_NaN_prefix:
  assumes "prev = [] \<or> prev = replicate n NaN"
  shows "ffill_rows prev (map (\<lambda>k. (k, replicate n NaN)) pre @ ys) =
           map (\<lambda>k. (k, replicate n NaN)) pre
           @ ffill_rows (if pre = [] then prev else replicate n NaN) ys"
  using assms
proof (induction pre arbitrary: prev)
  case Nil
  then show ?case by simp
next
  case (Cons k pre)
  have f: "fill_cells prev (replicate n NaN) = replicate n NaN"
    using Cons.prems by (auto simp: fill_cells_all_NaN)
  have "ffill_rows (replicate n NaN) (map (\<lambda>k. (k, replicate n NaN)) pre @ ys) =
           map (\<lambda>k. (k, replicate n NaN)) pre
           @ ffill_rows (if pre = [] then replicate n NaN else replicate n NaN) ys"
    by (rule Cons.IH) simp
  then show ?case using f by simp
qed

lemma filter_ffill_rows_all:
  assumes "\<forall>r\<in>set ys. P (fst r)"
  shows "filter (\<lambda>r. P (fst r)) (ffill_rows prev ys) = ffill_rows prev ys"
proof -
  have "set (map fst (ffill_rows prev ys)) = set (map fst ys)" by simp
  then have "\<forall>r\<in>set (ffill_rows prev ys). P (fst r)"
    using assms by (metis (no_types, lifting) image_iff list.set_map)
  then show ?thesis by simp
qed

lemma related_cell4_rows:
  assumes nb: "notebook1 p od = Inr st"
    and idx: "cell14 p = Inr idx"
    and dk: "distinct (map fst (rows od))" and dv: "distinct (map snd (rows od))"
    and noempty: "\<forall>r\<in>set (rows od). Str [] \<notin> set (snd r)"
    and A: "filter (\<lambda>k. slice_from p \<le> k) (sort (remdups (idx @ map fst (rows od)))) = hours"
    and B: "sort (remdups (idx @ hours)) = pre @ hours"
    and pre: "\<forall>k\<in>set pre. k < slice_from p" and hrs: "\<forall>k\<in>set hours. slice_from p \<le> k"
  shows "rows (related_cell4 p st) =
           ffill_rows (if pre = [] then [] else nan_cells od)
                      (map (\<lambda>k. (k, hd (cells_at od k))) hours)
       \<and> columns (related_cell4 p st) = columns od"
proof -
  let ?lo = "slice_from p"
  let ?c1 = "\<lambda>k. hd (cells_at od k)"
  from notebook1_store [OF nb] idx have
    f: "full_df st = DataFrame idx"
    and h: "full_historical_df st = join_outer (DataFrame idx) (drop_duplicates od)"
    and t: "target_df st = loc_from ?lo (full_historical_df st)"
    by auto
  have d: "distinct idx" using idx by (auto simp: cell14_def dest: distinct_date_range)
  have dd: "drop_duplicates od = od" using dv by (rule drop_duplicates_distinct)
  have J1: "rows (join_outer (DataFrame idx) od) =
              map (\<lambda>k. (k, ?c1 k)) (sort (remdups (idx @ map fst (rows od))))"
    by (rule rows_join_DataFrame_distinct [OF d dk])
  have T: "rows (target_df st) = map (\<lambda>k. (k, ?c1 k)) hours"
  proof -
    have "rows (target_df st) =
            filter (\<lambda>r. ?lo \<le> fst r)
                   (map (\<lambda>k. (k, ?c1 k)) (sort (remdups (idx @ map fst (rows od)))))"
      unfolding t h dd by (simp add: loc_from_def J1)
    also have "\<dots> = map (\<lambda>k. (k, ?c1 k))
                       (filter (\<lambda>k. ?lo \<le> k) (sort (remdups (idx @ map fst (rows od)))))"
      by (rule filter_map_key [where P = "\<lambda>k. ?lo \<le> k"])
    finally show ?thesis unfolding A .
  qed
  have Tc: "columns (target_df st) = columns od"
    unfolding t h dd by (simp add: loc_from_def DataFrame_def)
  have Tk: "map fst (rows (target_df st)) = hours"
    unfolding T by (simp add: comp_def)
  have dh: "distinct hours"
    using A [symmetric] by simp
  have dT: "distinct (map fst (rows (target_df st)))" unfolding Tk by (rule dh)
  have J2: "rows (join_outer (DataFrame idx) (target_df st)) =
              map (\<lambda>k. (k, hd (cells_at (target_df st) k))) (pre @ hours)"
    using rows_join_DataFrame_distinct [OF d dT] unfolding Tk B .
  have c_pre: "hd (cells_at (target_df st) k) = nan_cells od" if "k \<in> set pre" for k
  proof -
    from that pre have "k < ?lo" by simp
    with hrs have "k \<notin> set hours" by force
    then have "k \<notin> fst ` set (rows (target_df st))"
      using Tk by (metis list.set_map)
    then show ?thesis by (simp add: cells_at_absent nan_cells_def Tc)
  qed
  have c_hrs: "hd (cells_at (target_df st) k) = ?c1 k" if "k \<in> set hours" for k
  proof -
    from that have "(k, ?c1 k) \<in> set (rows (target_df st))" unfolding T by auto
    from cells_at_distinct [OF dT this] show ?thesis by simp
  qed
  have J2': "rows (join_outer (DataFrame idx) (target_df st)) =
               map (\<lambda>k. (k, replicate (length (columns od)) NaN)) pre @ map (\<lambda>k. (k, ?c1 k)) hours"
    unfolding J2 by (simp add: c_pre c_hrs nan_cells_def [symmetric] cong: map_cong)
  have c1: "?c1 k = nan_cells od \<or> ?c1 k \<in> snd ` set (rows od)" for k
  proof (cases "k \<in> fst ` set (rows od)")
    case True
    then obtain x where "x \<in> set (rows od)" "k = fst x" by auto
    with cells_at_distinct [OF dk, of x] show ?thesis by auto
  next
    case False
    then show ?thesis by (simp add: cells_at_absent)
  qed
  have ne: "\<forall>r\<in>set (rows (join_outer (DataFrame idx) (target_df st))). Str [] \<notin> set (snd r)"
  proof
    fix r assume "r \<in> set (rows (join_outer (DataFrame idx) (target_df st)))"
    then consider "snd r = replicate (length (columns od)) NaN" | k where "snd r = ?c1 k"
      unfolding J2' by auto
    then show "Str [] \<notin> set (snd r)"
    proof cases
      case 1
      then show ?thesis by simp
    next
      case 2
      with c1 [of k] noempty show ?thesis by (auto simp: nan_cells_def)
    qed
  qed
  have R: "replace_empty (join_outer (DataFrame idx) (target_df st)) =
             join_outer (DataFrame idx) (target_df st)"
    using ne by (rule replace_empty_none)
  have F: "ffill_rows [] (rows (join_outer (DataFrame idx) (target_df st))) =
             map (\<lambda>k. (k, replicate (length (columns od)) NaN)) pre
             @ ffill_rows (if pre = [] then [] else replicate (length (columns od)) NaN)
                          (map (\<lambda>k. (k, ?c1 k)) hours)"
    unfolding J2' by (rule ffill_rows_NaN_prefix) simp
  have keep: "filter (\<lambda>r. ?lo \<le> fst r)
                (ffill_rows (if pre = [] then [] else replicate (length (columns od)) NaN)
                            (map (\<lambda>k. (k, ?c1 k)) hours)) =
              ffill_rows (if pre = [] then [] else replicate (length (columns od)) NaN)
                         (map (\<lambda>k. (k, ?c1 k)) hours)"
    by (rule filter_ffill_rows_all) (use hrs in auto)
  have drop: "filter (\<lambda>r. ?lo \<le> fst r) (map (\<lambda>k. (k, replicate (length (columns od)) NaN)) pre) = []"
    using pre by (auto simp: filter_empty_conv)
  have "rows (related_cell4 p st) =
          ffill_rows (if pre = [] then [] else replicate (length (columns od)) NaN)
                     (map (\<lambda>k. (k, ?c1 k)) hours)"
    unfolding related_cell4_unfold f R
    by (simp add: loc_from_def rows_ffill F keep drop)
  moreover have "columns (related_cell4 p st) = columns od"
    unfolding related_cell4_unfold f by (simp add: loc_from_def Tc DataFrame_def)
  ultimately show ?thesis by (simp add: nan_cells_def)
qed

lemma ffill_rows_Suc_nth:
  "Suc i < length rs \<Longrightarrow>
     ffill_rows prev rs ! Suc i =
       (fst (rs ! Suc i), fill_cells (snd (ffill_rows prev rs ! i)) (snd (rs ! Suc i)))"
proof (induction rs arbitrary: prev i)
  case Nil
  then show ?case by simp
next
  case (Cons r rs)
  show ?case
  proof (cases i)
    case 0
    with Cons.prems obtain r' rs' where "rs = r' # rs'" by (cases rs) auto
    with 0 show ?thesis by simp
  next
    case (Suc j)
    with Cons.prems have "Suc j < length rs" by simp
    from Cons.IH [OF this, of "fill_cells prev (snd r)"] Suc show ?thesis by simp
  qed
qed

lemma length_snd_ffill_rows_nth:
  "i < length rs \<Longrightarrow> length (snd (ffill_rows prev rs ! i)) = length (snd (rs ! i))"
proof (induction rs arbitrary: prev i)
  case Nil
  then show ?case by simp
next
  case (Cons r rs)
  then show ?case by (cases i) auto
qed

lemma ffill_rows_gap_row:
  assumes "Suc i < length rs" and "snd (rs ! Suc i) = replicate n NaN"
    and "length (snd (rs ! i)) = n"
  shows "snd (ffill_rows prev rs ! Suc i) = snd (ffill_rows prev rs ! i)"
proof -
  have "length (snd (ffill_rows prev rs ! i)) = n"
    using assms(1,3) by (simp add: length_snd_ffill_rows_nth)
  then show ?thesis
    unfolding ffill_rows_Suc_nth [OF assms(1)] assms(2) by (simp add: fill_cells_all_NaN)
qed

lemma ffill_rows_first_complete:
  assumes "rs = r # rs'" and "NaN \<notin> set (snd r)"
    and "\<forall>x\<in>set rs. length (snd x) = n"
  shows "\<forall>x\<in>set (ffill_rows prev rs). NaN \<notin> set (snd x)"
proof -
  have f: "fill_cells prev (snd r) = snd r" using assms(2) by (rule fill_cells_no_NaN)
  have "\<forall>x\<in>set rs'. length (snd x) = length (snd r)" using assms(1,3) by simp
  with assms(2) have "\<forall>x\<in>set (ffill_rows (snd r) rs'). NaN \<notin> set (snd x)"
    by (rule ffill_rows_complete)
  then show ?thesis unfolding assms(1) using assms(2) f by simp
qed

lemma related_cell11_original_columns:
  assumes "columns df = original_columns"
  shows "related_cell11 df =
           Inr \<lparr>columns = [''temp'', ''rain_1h'', ''snow_1h'', ''clouds_all'', ''weather_description'',
                           ''item_ID''],
                rows = map (\<lambda>r. (fst r, related_cells (snd r))) (rows df)\<rparr>"
  by (simp add: related_cell11_def getitem_def assms original_columns_def setitem_new_def
      related_cells_def comp_def eval_nat_numeral)

lemma related_cells_complete:
  assumes "length cs = 8" and "NaN \<notin> set cs"
  shows "NaN \<notin> set (related_cells cs)"
proof -
  have "cell_at cs i \<in> set cs" if "i < 8" for i
    using that assms(1) by (simp add: cell_at_def)
  then have "cell_at cs 1 \<in> set cs" "cell_at cs 2 \<in> set cs" "cell_at cs 3 \<in> set cs"
    "cell_at cs 4 \<in> set cs" "cell_at cs 6 \<in> set cs"
    by simp_all
  with assms(2) show ?thesis
    by (auto simp: related_cells_def)
qed

lemma cell37_traffic_volume:
  assumes "''traffic_volume'' \<in> set (columns df)"
  shows "\<exists>out. cell37 df = Inr out"
proof -
  have "column_position cols n \<noteq> None" if "n \<in> set cols" for cols n
    using that by (induction cols) auto
  with assms have "column_position (columns df) ''traffic_volume'' \<noteq> None" by simp
  then show ?thesis by (simp add: cell37_def getitem_def)
qed

lemma notebook1_runs:
  assumes "cell14 p = Inr idx" and "''traffic_volume'' \<in> set (columns od)"
  shows "\<exists>st. notebook1 p od = Inr st"
proof -
  let ?t = "cell30 p (cell17 (cell15 idx) (cell12 od))"
  have c: "columns ?t = columns od"
    by (simp add: cell30_def cell17_def cell15_def cell12_def loc_from_def DataFrame_def
        drop_duplicates_def)
  have "''traffic_volume'' \<in> set (columns (cell35 p ?t))"
    using assms(2) c by (simp add: cell35_def loc_between_def)
  then obtain a where a: "cell37 (cell35 p ?t) = Inr a"
    using cell37_traffic_volume by blast
  have "''traffic_volume'' \<in> set (columns (cell40 p ?t))"
    using assms(2) c by (simp add: cell40_def loc_from_def)
  then obtain b where b: "cell37 (cell40 p ?t) = Inr b"
    using cell37_traffic_volume by blast
  show ?thesis
    using assms(1) a b by (simp add: notebook1_def Let_def cell32_def)
qed

subsection \<open>The hours of 2017 and 2018 on the index of the notebooks\<close>

lemma notebook_idx:
  "cell14 notebook_literals = Inr (map (\<lambda>k. 1349136000 + int k * 3600) [0..<52537])"
proof -
  have "nat ((1538265600 - 1349136000) div 3600 + 1) = (52537::nat)" by simp
  with date_range_axis [of 3600 1349136000 1538265600] show ?thesis
    by (simp add: cell14_def notebook_literals_def)
qed

lemma hours_date_range:
  "date_range 1483228800 1538348400 3600 = Inr hours_2017_2018"
proof -
  have "nat ((1538348400 - 1483228800) div 3600 + 1) = (15312::nat)" by simp
  with date_range_axis [of 3600 1483228800 1538348400] show ?thesis
    by (simp add: hours_2017_2018_def)
qed

lemma sorted_hours: "sorted hours_2017_2018"
  using hours_date_range by (rule sorted_date_range [rotated]) simp

lemma distinct_hours: "distinct hours_2017_2018"
  using hours_date_range by (rule distinct_date_range)

lemma hours_lower: "k \<in> set hours_2017_2018 \<Longrightarrow> 1483228800 \<le> k"
  by (auto simp: hours_2017_2018_def)

lemma idx_late_is_hour:
  assumes "k \<in> set (map (\<lambda>k. 1349136000 + int k * 3600) [0..<52537])" and "1483228800 \<le> k"
  shows "k \<in> set hours_2017_2018"
proof -
  from assms(1) obtain j where j: "j < 52537" "k = 1349136000 + int j * 3600" by auto
  with assms(2) have "37248 \<le> j" by simp
  then have "k = 1483228800 + int (j - 37248) * 3600" using j(2) by (simp add: of_nat_diff)
  moreover have "j - 37248 < 15312" using j(1) by simp
  ultimately show ?thesis unfolding hours_2017_2018_def by (auto simp: image_iff)
qed

lemma early_hour_is_idx:
  assumes "k \<in> set (map (\<lambda>k. 1483228800 + int k * 3600) [1..<15289])"
  shows "k \<in> set (map (\<lambda>k. 1349136000 + int k * 3600) [0..<52537])
       \<and> k \<in> set hours_2017_2018 \<and> k \<noteq> 1483228800"
proof -
  from assms obtain i where i: "1 \<le> i" "i < 15289" "k = 1483228800 + int i * 3600" by auto
  then have "k = 1349136000 + int (i + 37248) * 3600" by simp
  moreover have "i + 37248 < 52537" using i(2) by simp
  ultimately have "k \<in> (\<lambda>k. 1349136000 + int k * 3600) ` {0..<52537}"
    by (intro image_eqI [where x = "i + 37248"]) simp_all
  moreover have "k \<in> (\<lambda>k. 1483228800 + int k * 3600) ` {0..<15312}"
    using i by (intro image_eqI [where x = i]) simp_all
  moreover have "k \<noteq> 1483228800" using i by simp
  ultimately show ?thesis by (simp add: hours_2017_2018_def)
qed

lemma scenario_keys_A:
  assumes keys: "ks = filter (\<lambda>t. t \<notin> set missing) hours_2017_2018"
    and miss: "set missing \<subseteq> set (map (\<lambda>k. 1483228800 + int k * 3600) [1..<15289])"
  shows "filter (\<lambda>k. 1483228800 \<le> k)
           (sort (remdups (map (\<lambda>k. 1349136000 + int k * 3600) [0..<52537] @ ks))) = hours_2017_2018"
proof (rule sorted_distinct_set_unique)
  let ?idx = "map (\<lambda>k. 1349136000 + int k * 3600) [0..<52537]"
  show "sorted (filter (\<lambda>k. 1483228800 \<le> k) (sort (remdups (?idx @ ks))))"
    by (intro sorted_wrt_filter) simp
  show "distinct (filter (\<lambda>k. 1483228800 \<le> k) (sort (remdups (?idx @ ks))))"
    by simp
  show "sorted hours_2017_2018" by (rule sorted_hours)
  show "distinct hours_2017_2018" by (rule distinct_hours)
  show "set (filter (\<lambda>k. 1483228800 \<le> k) (sort (remdups (?idx @ ks)))) = set hours_2017_2018"
  proof (intro equalityI subsetI)
    fix k assume "k \<in> set (filter (\<lambda>k. 1483228800 \<le> k) (sort (remdups (?idx @ ks))))"
    then have lo: "1483228800 \<le> k" and "k \<in> set ?idx \<or> k \<in> set ks" by auto
    then show "k \<in> set hours_2017_2018"
    proof (elim disjE)
      assume "k \<in> set ?idx"
      then show ?thesis using lo by (rule idx_late_is_hour)
    next
      assume "k \<in> set ks"
      then show ?thesis unfolding keys by simp
    qed
  next
    fix k assume k: "k \<in> set hours_2017_2018"
    then have lo: "1483228800 \<le> k" by (rule hours_lower)
    have "k \<in> set ?idx \<or> k \<in> set ks"
    proof (cases "k \<in> set missing")
      case True
      with miss have "k \<in> set (map (\<lambda>k. 1483228800 + int k * 3600) [1..<15289])" by (rule subsetD)
      then show ?thesis using early_hour_is_idx by simp
    next
      case False
      with k show ?thesis unfolding keys by simp
    qed
    with lo show "k \<in> set (filter (\<lambda>k. 1483228800 \<le> k) (sort (remdups (?idx @ ks))))"
      by auto
  qed
qed

lemma scenario_keys_B:
  "sort (remdups (map (\<lambda>k. 1349136000 + int k * 3600) [0..<52537] @ hours_2017_2018)) =
     filter (\<lambda>k. k < 1483228800) (map (\<lambda>k. 1349136000 + int k * 3600) [0..<52537]) @ hours_2017_2018"
proof (rule sorted_distinct_set_unique)
  let ?idx = "map (\<lambda>k. 1349136000 + int k * 3600) [0..<52537]"
  have si: "sorted ?idx" using notebook_idx
    by (intro sorted_date_range [of 3600 1349136000 1538265600])
       (simp_all add: cell14_def notebook_literals_def)
  have di: "distinct ?idx" using notebook_idx
    by (intro distinct_date_range [of 1349136000 1538265600 3600])
       (simp_all add: cell14_def notebook_literals_def)
  show "sorted (sort (remdups (?idx @ hours_2017_2018)))" by simp
  show "distinct (sort (remdups (?idx @ hours_2017_2018)))" by simp
  have "x \<le> y" if "x \<in> set (filter (\<lambda>k. k < 1483228800) ?idx)" "y \<in> set hours_2017_2018" for x y
  proof -
    from that(1) have "x < 1483228800" by simp
    moreover from that(2) have "1483228800 \<le> y" by (rule hours_lower)
    ultimately show ?thesis by simp
  qed
  then show "sorted (filter (\<lambda>k. k < 1483228800) ?idx @ hours_2017_2018)"
    using sorted_wrt_filter [OF si, of "\<lambda>k. k < 1483228800"] sorted_hours
    by (simp add: sorted_append)
  have "set (filter (\<lambda>k. k < 1483228800) ?idx) \<inter> set hours_2017_2018 = {}"
  proof (rule ccontr)
    assume "set (filter (\<lambda>k. k < 1483228800) ?idx) \<inter> set hours_2017_2018 \<noteq> {}"
    then obtain k where "k \<in> set (filter (\<lambda>k. k < 1483228800) ?idx)" "k \<in> set hours_2017_2018"
      by auto
    then have "k < 1483228800" "1483228800 \<le> k" by (simp_all add: hours_lower)
    then show False by simp
  qed
  then show "distinct (filter (\<lambda>k. k < 1483228800) ?idx @ hours_2017_2018)"
    using di distinct_hours by simp
  show "set (sort (remdups (?idx @ hours_2017_2018))) =
        set (filter (\<lambda>k. k < 1483228800) ?idx @ hours_2017_2018)"
  proof (intro equalityI subsetI)
    fix k assume "k \<in> set (sort (remdups (?idx @ hours_2017_2018)))"
    then have "k \<in> set ?idx \<or> k \<in> set hours_2017_2018" by simp
    then show "k \<in> set (filter (\<lambda>k. k < 1483228800) ?idx @ hours_2017_2018)"
    proof (elim disjE)
      assume i: "k \<in> set ?idx"
      show ?thesis
      proof (cases "k < 1483228800")
        case True
        with i show ?thesis by simp
      next
        case False
        then have "1483228800 \<le> k" by simp
        with i have "k \<in> set hours_2017_2018" by (rule idx_late_is_hour)
        then show ?thesis by simp
      qed
    next
      assume "k \<in> set hours_2017_2018"
      then show ?thesis by simp
    qed
  next
    fix k assume "k \<in> set (filter (\<lambda>k. k < 1483228800) ?idx @ hours_2017_2018)"
    then show "k \<in> set (sort (remdups (?idx @ hours_2017_2018)))" by auto
  qed
qed

lemma length_snd_ffill_rows:
  "\<forall>x\<in>set rs. length (snd x) = n \<Longrightarrow> \<forall>x\<in>set (ffill_rows prev rs). length (snd x) = n"
  by (induction rs arbitrary: prev) auto

lemma hourly_scenario:
  assumes cols: "columns od = original_columns"
    and wf: "\<forall>r\<in>set (rows od). length (snd r) = 8 \<and> NaN \<notin> set (snd r) \<and> Str [] \<notin> set (snd r)"
    and dv: "distinct (map snd (rows od))"
    and keys: "map fst (rows od) = filter (\<lambda>t. t \<notin> set missing) hours_2017_2018"
    and miss: "set missing \<subseteq> set (map (\<lambda>k. 1483228800 + int k * 3600) [1..<15289])"
  shows "\<exists>out. related_time_series_df notebook_literals od = Inr out
           \<and> map fst (rows out) = hours_2017_2018
           \<and> length (rows out) = 15312
           \<and> \<not> any_null out
           \<and> (\<forall>i<length (rows out). fst (rows out ! i) \<in> set missing
                  \<longrightarrow> snd (rows out ! i) = snd (rows out ! (i - 1)))"
proof -
  let ?p = notebook_literals
  let ?idx = "map (\<lambda>k. 1349136000 + int k * 3600) [0..<52537]"
  let ?pre = "filter (\<lambda>k. k < 1483228800) ?idx"
  let ?c1 = "\<lambda>k. hd (cells_at od k)"
  let ?ys = "map (\<lambda>k. (k, ?c1 k)) hours_2017_2018"
  let ?prev = "if ?pre = [] then [] else nan_cells od"
  have lo: "slice_from ?p = 1483228800" by (simp add: notebook_literals_def)
  have tv: "''traffic_volume'' \<in> set (columns od)"
    unfolding cols by (simp add: original_columns_def)
  from notebook1_runs [OF notebook_idx tv] obtain st where st: "notebook1 ?p od = Inr st" ..
  have dk: "distinct (map fst (rows od))"
    unfolding keys using distinct_hours by simp
  have ne: "\<forall>r\<in>set (rows od). Str [] \<notin> set (snd r)" using wf by simp
  have A: "filter (\<lambda>k. slice_from ?p \<le> k) (sort (remdups (?idx @ map fst (rows od)))) = hours_2017_2018"
    unfolding lo by (rule scenario_keys_A [OF keys miss])
  have pre: "\<forall>k\<in>set ?pre. k < slice_from ?p" unfolding lo by simp
  have hrs: "\<forall>k\<in>set hours_2017_2018. slice_from ?p \<le> k" unfolding lo by (simp add: hours_lower)
  from related_cell4_rows [OF st notebook_idx dk dv ne A scenario_keys_B pre hrs]
  have R: "rows (related_cell4 ?p st) = ffill_rows ?prev ?ys"
    and Rc: "columns (related_cell4 ?p st) = original_columns"
    using cols by simp_all
  let ?R = "related_cell4 ?p st"
  let ?out = "\<lparr>columns = [''temp'', ''rain_1h'', ''snow_1h'', ''clouds_all'', ''weather_description'',
                           ''item_ID''],
                rows = map (\<lambda>r. (fst r, related_cells (snd r))) (rows ?R)\<rparr>"
  have run: "related_time_series_df ?p od = Inr ?out"
    using st related_cell11_original_columns [OF Rc]
    by (simp add: related_time_series_df_def notebook3_def related_cell7_def)
  \<comment> \<open>the cells of the joined frame at the hours\<close>
  have present: "?c1 k \<in> snd ` set (rows od)" if "k \<in> set hours_2017_2018" "k \<notin> set missing" for k
  proof -
    from that have "k \<in> set (map fst (rows od))" unfolding keys by simp
    then obtain x where x: "x \<in> set (rows od)" "k = fst x" by auto
    with cells_at_distinct [OF dk x(1)] show ?thesis by simp
  qed
  have absent: "?c1 k = replicate 8 NaN" if "k \<in> set missing" for k
  proof -
    from that have "k \<notin> set (map fst (rows od))" unfolding keys by simp
    then have "k \<notin> fst ` set (rows od)" by simp
    then have "cells_at od k = [nan_cells od]" by (rule cells_at_absent)
    moreover have "length (columns od) = 8" unfolding cols original_columns_def by simp
    ultimately show ?thesis by (simp only: list.sel nan_cells_def)
  qed
  have len: "length (?c1 k) = 8" if "k \<in> set hours_2017_2018" for k
  proof (cases "k \<in> set missing")
    case True
    then show ?thesis by (simp add: absent)
  next
    case False
    from present [OF that False] obtain x where "x \<in> set (rows od)" "?c1 k = snd x"
      by (metis imageE)
    with wf show ?thesis by simp
  qed
  have len_ys: "\<forall>x\<in>set ?ys. length (snd x) = 8" using len by auto
  \<comment> \<open>the first hour is present\<close>
  have h0: "hours_2017_2018 = 1483228800 # map (\<lambda>k. 1483228800 + int k * 3600) [1..<15312]"
  proof -
    have "[0..<15312] = 0 # [1..<15312]"
      using upt_conv_Cons [of 0 15312] by simp
    then show ?thesis unfolding hours_2017_2018_def by (simp only: list.map) simp
  qed
  have first_in: "1483228800 \<in> set hours_2017_2018" unfolding h0 by simp
  have first_present: "1483228800 \<notin> set missing"
  proof
    assume "1483228800 \<in> set missing"
    with miss have "1483228800 \<in> set (map (\<lambda>k. 1483228800 + int k * 3600) [1..<15289])"
      by (rule subsetD)
    with early_hour_is_idx show False by blast
  qed
  have first_complete: "NaN \<notin> set (?c1 1483228800)"
  proof -
    from present [OF first_in first_present] obtain x where
      "x \<in> set (rows od)" "?c1 1483228800 = snd x"
      by (metis imageE)
    with wf show ?thesis by simp
  qed
  have ys0: "?ys = (1483228800, ?c1 1483228800)
               # map (\<lambda>k. (k, ?c1 k)) (map (\<lambda>k. 1483228800 + int k * 3600) [1..<15312])"
    by (subst h0) simp
  have complete: "\<forall>x\<in>set (rows ?R). NaN \<notin> set (snd x)"
    unfolding R by (rule ffill_rows_first_complete [OF ys0 _ len_ys]) (simp add: first_complete)
  have lenR: "\<forall>x\<in>set (rows ?R). length (snd x) = 8"
    unfolding R using len_ys by (rule length_snd_ffill_rows)
  have k1: "map fst (rows ?out) = hours_2017_2018"
  proof -
    have "map fst (rows ?out) = map fst (rows ?R)" by (simp add: comp_def)
    also have "\<dots> = map fst ?ys" unfolding R by (rule map_fst_ffill_rows)
    also have "\<dots> = hours_2017_2018" by (simp add: comp_def)
    finally show ?thesis .
  qed
  have k1': "length (rows ?out) = 15312"
    using arg_cong [OF k1, of length] by (simp add: hours_2017_2018_def)
  have k2: "\<not> any_null ?out"
  proof -
    have "NaN \<notin> set (related_cells (snd x))" if "x \<in> set (rows ?R)" for x
      using that lenR complete by (intro related_cells_complete) auto
    then show ?thesis
      by (auto simp: any_null_def list_ex_iff row_isnull_def)
  qed
  have k3: "snd (rows ?out ! i) = snd (rows ?out ! (i - 1))"
    if i: "i < length (rows ?out)" and m: "fst (rows ?out ! i) \<in> set missing" for i
  proof -
    have li: "i < 15312" using i k1' by simp
    have ki: "fst (rows ?out ! i) = hours_2017_2018 ! i"
      using i arg_cong [OF k1, of "\<lambda>xs. xs ! i"] by simp
    have "i \<noteq> 0"
    proof
      assume "i = 0"
      with ki have "fst (rows ?out ! i) = 1483228800" unfolding h0 by simp
      with m first_present show False by simp
    qed
    then obtain j where j: "i = Suc j" by (cases i) auto
    have lys: "length ?ys = 15312" by (simp add: hours_2017_2018_def)
    have gap: "snd (?ys ! Suc j) = replicate 8 NaN"
    proof -
      have "snd (?ys ! Suc j) = ?c1 (hours_2017_2018 ! Suc j)"
        using li j by (simp add: hours_2017_2018_def del: upt_Suc)
      with m ki j show ?thesis by (simp add: absent)
    qed
    have "?ys ! j \<in> set ?ys" using li j lys by (intro nth_mem) simp
    with len_ys have before: "length (snd (?ys ! j)) = 8" by (rule bspec)
    have "snd (ffill_rows ?prev ?ys ! Suc j) = snd (ffill_rows ?prev ?ys ! j)"
      using li j lys by (intro ffill_rows_gap_row [OF _ gap before]) simp
    then have "snd (rows ?R ! Suc j) = snd (rows ?R ! j)" unfolding R .
    moreover have "Suc j < length (rows ?R)" "j < length (rows ?R)" using i j by simp_all
    ultimately show ?thesis unfolding j by simp
  qed
  from run k1 k1' k2 k3 show ?thesis by blast
qed

text \<open>The input of the scenario meets the conditions of \<open>hourly_scenario\<close>.\<close>

lemma scenario_columns: "columns scenario_input = original_columns"
  by (simp add: scenario_input_def original_def)

lemma scenario_rows:
  "rows scenario_input =
     map (\<lambda>k. (1483228800 + int k * 3600, observation (of_nat k) ''mist'' (of_nat k)))
         (filter (\<lambda>k. k \<noteq> 100 \<and> k \<noteq> 5000 \<and> k \<noteq> 12000) [0..<15312])"
  by (simp only: scenario_input_def original_def frame.simps)

lemma scenario_cells:
  "\<forall>r\<in>set (rows scenario_input). length (snd r) = 8 \<and> NaN \<notin> set (snd r) \<and> Str [] \<notin> set (snd r)"
proof
  fix r assume "r \<in> set (rows scenario_input)"
  then obtain k where "snd r = observation (of_nat k) ''mist'' (of_nat k)"
    unfolding scenario_rows by auto
  then show "length (snd r) = 8 \<and> NaN \<notin> set (snd r) \<and> Str [] \<notin> set (snd r)"
    by (simp add: observation_def)
qed

lemma scenario_values: "distinct (map snd (rows scenario_input))"
proof -
  have "inj_on (\<lambda>k::nat. observation (of_nat k) ''mist'' (of_nat k)) A" for A
    by (rule inj_onI) (simp add: observation_def)
  then have "distinct (map (\<lambda>k::nat. observation (of_nat k) ''mist'' (of_nat k))
                (filter (\<lambda>k. k \<noteq> 100 \<and> k \<noteq> 5000 \<and> k \<noteq> 12000) [0..<15312]))"
    by (simp only: distinct_map distinct_filter distinct_upt simp_thms)
  then show ?thesis unfolding scenario_rows map_map comp_def snd_conv .
qed

lemma scenario_keys:
  "map fst (rows scenario_input) = filter (\<lambda>t. t \<notin> set scenario_missing) hours_2017_2018"
proof -
  have eq: "(1483228800 + int k * 3600 \<notin> set scenario_missing) = (k \<noteq> 100 \<and> k \<noteq> 5000 \<and> k \<noteq> 12000)" for k
    by (auto simp: scenario_missing_def)
  have "filter (\<lambda>t. t \<notin> set scenario_missing) hours_2017_2018 =
          map (\<lambda>k. 1483228800 + int k * 3600)
              (filter (\<lambda>k. k \<noteq> 100 \<and> k \<noteq> 5000 \<and> k \<noteq> 12000) [0..<15312])"
    unfolding hours_2017_2018_def filter_map comp_def eq ..
  then show ?thesis unfolding scenario_rows map_map comp_def fst_conv by simp
qed

lemma scenario_missing_on_index:
  "set scenario_missing \<subseteq> set (map (\<lambda>k. 1483228800 + int k * 3600) [1..<15289])"
proof -
  have "(100::nat) \<in> {1..<15289}" "(5000::nat) \<in> {1..<15289}" "(12000::nat) \<in> {1..<15289}"
    by simp_all
  then have "(\<lambda>k. 1483228800 + int k * 3600) ` {100, 5000, 12000}
               \<subseteq> (\<lambda>k. 1483228800 + int k * 3600) ` {1..<15289}"
    by (intro image_mono) simp
  then show ?thesis
    by (simp only: scenario_missing_def set_map set_upt list.set)
qed

subsection \<open>The rows of the outer join, time stamp by time stamp\<close>

lemma filter_key_concat:
  "distinct ks \<Longrightarrow>
     filter (\<lambda>x. fst x = k) (concat (map (\<lambda>k'. map (\<lambda>c. (k', c)) (g k')) ks)) =
       (if k \<in> set ks then map (\<lambda>c. (k, c)) (g k) else [])"
proof (induction ks)
  case Nil
  then show ?case by simp
next
  case (Cons a ks)
  have a: "filter (\<lambda>x. fst x = k) (map (\<lambda>c. (a, c)) (g a)) = (if a = k then map (\<lambda>c. (a, c)) (g a) else [])"
    by (simp add: filter_map comp_def)
  from Cons show ?case by (auto simp: a)
qed

lemma map_key_cells_at:
  "map (\<lambda>c. (k, c)) (cells_at r k) =
     (if k \<in> fst ` set (rows r) then filter (\<lambda>x. fst x = k) (rows r) else [(k, nan_cells r)])"
proof (cases "k \<in> fst ` set (rows r)")
  case True
  then have "cells_at r k = map snd (filter (\<lambda>x. fst x = k) (rows r))"
    using cells_at_cases [of r k] by blast
  moreover have "map (\<lambda>c. (k, c)) (map snd (filter (\<lambda>x. fst x = k) xs)) = filter (\<lambda>x. fst x = k) xs" for xs :: "row list"
    by (induction xs) auto
  ultimately show ?thesis using True by simp
next
  case False
  then have "cells_at r k = [nan_cells r]" by (rule cells_at_absent)
  with False show ?thesis by simp
qed

lemma rows_at_join_DataFrame:
  assumes "distinct idx"
  shows "filter (\<lambda>x. fst x = k) (rows (join_outer (DataFrame idx) r)) =
           (if k \<in> fst ` set (rows r) then filter (\<lambda>x. fst x = k) (rows r)
            else if k \<in> set idx then [(k, nan_cells r)] else [])"
proof -
  have "filter (\<lambda>x. fst x = k) (rows (join_outer (DataFrame idx) r)) =
          (if k \<in> set (sort (remdups (idx @ map fst (rows r))))
           then map (\<lambda>c. (k, c)) (cells_at r k) else [])"
    unfolding rows_join_DataFrame [OF assms] by (rule filter_key_concat) simp
  then show ?thesis by (auto simp: map_key_cells_at)
qed

lemma sorted_keys_concat:
  "sorted ks \<Longrightarrow> sorted (map fst (concat (map (\<lambda>k. map (\<lambda>c. (k, c)) (g k)) ks)))"
proof (induction ks)
  case Nil
  then show ?case by simp
next
  case (Cons a ks)
  have "fst x = a" if "x \<in> set (map (\<lambda>c. (a, c)) (g a))" for x
    using that by auto
  moreover have "fst y \<in> set ks" if "y \<in> set (concat (map (\<lambda>k. map (\<lambda>c. (k, c)) (g k)) ks))" for y
    using that by auto
  moreover have "sorted (map fst (map (\<lambda>c. (a, c)) (g a)))"
    by (simp add: comp_def sorted_wrt_iff_nth_less)
  ultimately show ?case using Cons by (auto simp: sorted_append comp_def)
qed

lemma sorted_join_DataFrame:
  "distinct idx \<Longrightarrow> sorted (map fst (rows (join_outer (DataFrame idx) r)))"
  unfolding rows_join_DataFrame by (rule sorted_keys_concat) simp

lemma length_rows_by_key:
  "length xs = (\<Sum>k\<in>fst ` set xs. length (filter (\<lambda>x. fst x = k) xs))" for xs :: "('k \<times> 'v) list"
proof -
  have "length (map fst xs) = sum (count_list (map fst xs)) (set (map fst xs))"
    by (rule sum_count_set [symmetric]) simp_all
  moreover have "count_list (map fst xs) k = length (filter (\<lambda>x. fst x = k) xs)" for k
    by (induction xs) auto
  ultimately show ?thesis by simp
qed

lemma length_join_DataFrame:
  assumes "distinct idx"
  shows "length (rows (join_outer (DataFrame idx) r)) =
           length (rows r) + length (filter (\<lambda>k. k \<notin> fst ` set (rows r)) idx)"
proof -
  let ?J = "rows (join_outer (DataFrame idx) r)"
  let ?K = "fst ` set (rows r)"
  let ?G = "set idx - ?K"
  have keys: "fst ` set ?J = ?K \<union> ?G"
    using set_keys_join_DataFrame [OF assms, of r] by auto
  have "length ?J = (\<Sum>k\<in>?K \<union> ?G. length (filter (\<lambda>x. fst x = k) ?J))"
    using length_rows_by_key [of ?J] unfolding keys .
  also have "\<dots> = (\<Sum>k\<in>?K. length (filter (\<lambda>x. fst x = k) ?J))
                  + (\<Sum>k\<in>?G. length (filter (\<lambda>x. fst x = k) ?J))"
    by (rule sum.union_disjoint) auto
  also have "(\<Sum>k\<in>?K. length (filter (\<lambda>x. fst x = k) ?J)) =
             (\<Sum>k\<in>?K. length (filter (\<lambda>x. fst x = k) (rows r)))"
    by (rule sum.cong [OF refl]) (simp add: rows_at_join_DataFrame [OF assms])
  also have "\<dots> = length (rows r)" by (rule length_rows_by_key [symmetric])
  also have "(\<Sum>k\<in>?G. length (filter (\<lambda>x. fst x = k) ?J)) = (\<Sum>k\<in>?G. 1)"
    by (rule sum.cong [OF refl]) (simp add: rows_at_join_DataFrame [OF assms])
  also have "\<dots> = card ?G" by simp
  also have "card ?G = length (filter (\<lambda>k. k \<notin> ?K) idx)"
  proof -
    have "?G = set (filter (\<lambda>k. k \<notin> ?K) idx)" by auto
    moreover have "distinct (filter (\<lambda>k. k \<notin> ?K) idx)" using assms by simp
    ultimately show ?thesis by (simp only: distinct_card)
  qed
  finally show ?thesis .
qed

subsection \<open>Inputs that are regular from the slice on\<close>

text \<open>
  The slice of the notebooks starts after the range does. An input that has one row for
  each point of the index from the start of the slice on, no missing value, no empty
  string and no two rows with the same values, comes back unchanged as well.
\<close>

lemma sorted_split_at:
  "sorted xs \<Longrightarrow> filter (\<lambda>x. x < a) xs @ filter (\<lambda>x. a \<le> x) xs = xs" for a :: int
proof (induction xs)
  case Nil
  then show ?case by simp
next
  case (Cons x xs)
  then have IH: "filter (\<lambda>x. x < a) xs @ filter (\<lambda>x. a \<le> x) xs = xs" by simp
  show ?case
  proof (cases "x < a")
    case True
    with IH show ?thesis by simp
  next
    case False
    with Cons.prems have "\<forall>y\<in>set xs. a \<le> y" by auto
    then have "filter (\<lambda>x. x < a) xs = []" "filter (\<lambda>x. a \<le> x) xs = xs"
      by (auto simp: filter_empty_conv filter_id_conv)
    with False show ?thesis by simp
  qed
qed

lemma regular_from_the_slice_is_unchanged:
  assumes pos: "0 < freq p" and le: "range_start p \<le> range_end p"
    and keys: "map fst (rows od) =
           filter (\<lambda>t. slice_from p \<le> t)
             (map (\<lambda>k. range_start p + int k * freq p)
                  [0..<nat ((range_end p - range_start p) div freq p + 1)])"
    and complete: "\<forall>r\<in>set (rows od). NaN \<notin> set (snd r) \<and> Str [] \<notin> set (snd r)"
    and dv: "distinct (map snd (rows od))"
    and nb: "notebook1 p od = Inr st"
  shows "related_cell4 p st = od"
proof -
  let ?lo = "slice_from p"
  let ?hours = "map fst (rows od)"
  from notebook1_store [OF nb] obtain idx where idx: "cell14 p = Inr idx" by metis
  have dr: "date_range (range_start p) (range_end p) (freq p) = Inr idx"
    using idx by (simp add: cell14_def)
  have axis: "idx = map (\<lambda>k. range_start p + int k * freq p)
                  [0..<nat ((range_end p - range_start p) div freq p + 1)]"
    using dr date_range_axis [OF pos le] by simp
  have k: "?hours = filter (\<lambda>t. ?lo \<le> t) idx" unfolding keys axis ..
  have d: "distinct idx" using dr by (rule distinct_date_range)
  have s: "sorted idx" using pos dr by (rule sorted_date_range)
  have dk: "distinct ?hours" unfolding k using d by simp
  have ne: "\<forall>r\<in>set (rows od). Str [] \<notin> set (snd r)" using complete by simp
  have absorb: "sort (remdups (idx @ ?hours)) = idx"
    using s d by (rule sort_remdups_absorb) (simp add: k)
  have A: "filter (\<lambda>k. ?lo \<le> k) (sort (remdups (idx @ ?hours))) = ?hours"
    by (subst absorb) (rule k [symmetric])
  have B: "sort (remdups (idx @ ?hours)) = filter (\<lambda>k. k < ?lo) idx @ ?hours"
    by (subst absorb, subst k) (rule sorted_split_at [OF s, symmetric])
  have pre: "\<forall>k\<in>set (filter (\<lambda>k. k < ?lo) idx). k < ?lo" by simp
  have hrs: "\<forall>k\<in>set ?hours. ?lo \<le> k" unfolding k by simp
  from related_cell4_rows [OF nb idx dk dv ne A B pre hrs]
  have R: "rows (related_cell4 p st) =
             ffill_rows (if filter (\<lambda>k. k < ?lo) idx = [] then [] else nan_cells od)
                        (map (\<lambda>k. (k, hd (cells_at od k))) ?hours)"
    and C: "columns (related_cell4 p st) = columns od"
    by simp_all
  have "map (\<lambda>k. (k, hd (cells_at od k))) ?hours = map (\<lambda>x. x) (rows od)"
    unfolding map_map by (rule map_cong [OF refl]) (simp add: cells_at_distinct [OF dk])
  then have same: "map (\<lambda>k. (k, hd (cells_at od k))) ?hours = rows od" by simp
  have "rows (related_cell4 p st) = rows od"
    unfolding R same using complete by (intro ffill_rows_no_NaN) simp
  with C show ?thesis by (intro frame.equality) simp_all
qed

lemma regular_from_the_slice_notebooks:
  assumes "map fst (rows od) =
             filter (\<lambda>t. 1483228800 \<le> t) (map (\<lambda>k. 1349136000 + int k * 3600) [0..<52537])"
    and "\<forall>r\<in>set (rows od). NaN \<notin> set (snd r) \<and> Str [] \<notin> set (snd r)"
    and "distinct (map snd (rows od))"
    and "notebook1 notebook_literals od = Inr st"
  shows "related_cell4 notebook_literals st = od"
proof -
  have n: "nat ((1538265600 - 1349136000) div 3600 + 1) = (52537::nat)" by simp
  have p: "freq notebook_literals = 3600" "range_start notebook_literals = 1349136000"
    "range_end notebook_literals = 1538265600" "slice_from notebook_literals = 1483228800"
    by (simp_all add: notebook_literals_def)
  show ?thesis
  proof (rule regular_from_the_slice_is_unchanged [OF _ _ _ assms(2,3,4)])
    show "0 < freq notebook_literals" unfolding p by simp
    show "range_start notebook_literals \<le> range_end notebook_literals" unfolding p by simp
    show "map fst (rows od) =
           filter (\<lambda>t. slice_from notebook_literals \<le> t)
             (map (\<lambda>k. range_start notebook_literals + int k * freq notebook_literals)
                  [0..<nat ((range_end notebook_literals - range_start notebook_literals)
                            div freq notebook_literals + 1)])"
      unfolding p n by (rule assms(1))
  qed
qed

section \<open>The claims about the frames\<close>

text \<open>
  Claim C1, as the code has it. The notebooks have no completeness check and no error for
  incomplete data. In the related frame of notebook 3 the missing cells of a column can
  only sit at its top: the frame has a missing cell if and only if its first row has one.
  A frame whose first row is complete is complete; a leading gap is passed on as it is.
\<close>

theorem related_frame_null_iff_first_row_null:
  assumes "well_formed original_data" and "notebook1 p original_data = Inr st"
  shows "any_null (related_cell4 p st) \<longleftrightarrow>
           (case rows (related_cell4 p st) of [] \<Rightarrow> False | r # _ \<Rightarrow> row_isnull r)"
  unfolding related_cell4_unfold
  by (rule related_cell4_null_iff [OF notebook1_well_formed [OF assms(2,1)]])

theorem related_frame_null_iff_first_row_null_witness:
  "well_formed sample_input
   \<and> notebook1 three_hours sample_input = Inr sample_store
   \<and> \<not> any_null (related_cell4 three_hours sample_store)"
proof -
  have wf: "well_formed sample_input" by code_simp
  have first: "rows (related_cell4 three_hours sample_store) =
     [(0, observation 288 ''mist'' 5545), (3600, observation 288 ''mist'' 5545),
      (7200, observation 289 ''mist'' 4516)]"
    by code_simp
  have "\<not> row_isnull (0, observation 288 ''mist'' 5545)" by code_simp
  with wf notebook1_sample first
    related_frame_null_iff_first_row_null [of sample_input three_hours sample_store]
  show ?thesis by simp
qed

text \<open>
  Claim C1 as stated fails: with no observation for the first hour of the range, the
  related frame is built without any error and its first row is missing in every column
  taken from the input.
\<close>

theorem leading_gap_is_emitted:
  "related_time_series_df three_hours (original [(3600, observation 288 ''mist'' 5545)]) =
     Inr \<lparr>columns = [''temp'', ''rain_1h'', ''snow_1h'', ''clouds_all'', ''weather_description'',
                     ''item_ID''],
          rows = [(0, [NaN, NaN, NaN, NaN, NaN, Str ''1'']),
                  (3600, [Num 288, Num 0, Num 0, Num 40, Str ''mist'', Str ''1'']),
                  (7200, [Num 288, Num 0, Num 0, Num 40, Str ''mist'', Str ''1''])]\<rparr>"
  by code_simp

text \<open>
  Claim C2, as the code has it. For a positive frequency and \<open>start \<le> end\<close> the index built
  by \<open>date_range\<close> has exactly \<open>(end - start) div freq + 1\<close> points, \<open>start + k * freq\<close> for
  \<open>k = 0, 1, ...\<close>, so they are distinct and increase in steps of exactly the frequency.
  The outer join keeps every time stamp of either side. The joined frame therefore has
  exactly the points of the index as its time stamps, one row each, when the time stamps
  of the deduplicated input are pairwise distinct and all lie on the index. In general the
  joined frame has the columns of the input and its rows are in the order of time; at a
  time stamp of the deduplicated input it has exactly the rows of that input with this
  time stamp, in their order, at a point of the index with no row of the input it has one
  row of missing values, and at any other time stamp it has no row. Its number of rows is
  the number of rows of the deduplicated input plus the number of points of the index
  that have no row of the input.
\<close>

theorem full_historical_df_axis:
  assumes "0 < freq p" and "range_start p \<le> range_end p"
    and "notebook1 p original_data = Inr st"
  shows "map fst (rows (full_df st)) =
           map (\<lambda>k. range_start p + int k * freq p)
               [0..<nat ((range_end p - range_start p) div freq p + 1)]
       \<and> set (map fst (rows (full_historical_df st))) =
           set (map fst (rows (full_df st))) \<union> set (map fst (rows (cell12 original_data)))
       \<and> (distinct (map fst (rows (cell12 original_data)))
            \<and> set (map fst (rows (cell12 original_data))) \<subseteq> set (map fst (rows (full_df st)))
          \<longrightarrow> map fst (rows (full_historical_df st)) = map fst (rows (full_df st))
              \<and> length (rows (full_historical_df st)) =
                  nat ((range_end p - range_start p) div freq p + 1))
       \<and> columns (full_historical_df st) = columns original_data
       \<and> sorted (map fst (rows (full_historical_df st)))
       \<and> (\<forall>k. filter (\<lambda>r. fst r = k) (rows (full_historical_df st)) =
                (if k \<in> set (map fst (rows (cell12 original_data)))
                 then filter (\<lambda>r. fst r = k) (rows (cell12 original_data))
                 else if k \<in> set (map fst (rows (full_df st)))
                 then [(k, replicate (length (columns original_data)) NaN)]
                 else []))
       \<and> length (rows (full_historical_df st)) =
           length (rows (cell12 original_data))
           + length (filter (\<lambda>k. k \<notin> set (map fst (rows (cell12 original_data))))
                            (map fst (rows (full_df st))))"
proof -
  let ?axis = "map (\<lambda>k. range_start p + int k * freq p)
                   [0..<nat ((range_end p - range_start p) div freq p + 1)]"
  let ?raw = "drop_duplicates original_data"
  from notebook1_store [OF assms(3)] obtain idx where
    idx: "cell14 p = Inr idx" and f: "full_df st = DataFrame idx"
    and h: "full_historical_df st = join_outer (DataFrame idx) ?raw"
    by metis
  have axis: "idx = ?axis"
    using idx date_range_axis [OF assms(1,2)] by (simp add: cell14_def)
  have d: "distinct idx" using idx by (auto simp: cell14_def dest: distinct_date_range)
  have s: "sorted idx" using idx assms(1) by (auto simp: cell14_def dest: sorted_date_range)
  have keys_full: "map fst (rows (full_df st)) = idx"
    unfolding f by (simp add: DataFrame_def comp_def)
  have 1: "map fst (rows (full_df st)) = ?axis" using keys_full axis by simp
  have 2: "set (map fst (rows (full_historical_df st))) =
             set (map fst (rows (full_df st))) \<union> set (map fst (rows (cell12 original_data)))"
    unfolding h keys_full cell12_def using set_keys_join_DataFrame [OF d, of ?raw] by simp
  have 3: "map fst (rows (full_historical_df st)) = map fst (rows (full_df st))
           \<and> length (rows (full_historical_df st)) =
               nat ((range_end p - range_start p) div freq p + 1)"
    if "distinct (map fst (rows (cell12 original_data)))
        \<and> set (map fst (rows (cell12 original_data))) \<subseteq> set (map fst (rows (full_df st)))"
  proof -
    from that have dr: "distinct (map fst (rows ?raw))" and sub: "set (map fst (rows ?raw)) \<subseteq> set idx"
      unfolding keys_full cell12_def by simp_all
    have k: "map fst (rows (full_historical_df st)) = idx"
      unfolding h keys_join_DataFrame [OF d dr] by (rule sort_remdups_absorb [OF s d sub])
    have "length (map fst (rows (full_historical_df st))) = length ?axis"
      unfolding k using axis by simp
    then have "length (rows (full_historical_df st)) =
                 nat ((range_end p - range_start p) div freq p + 1)"
      by simp
    then show ?thesis using k keys_full by simp
  qed
  have 4: "columns (full_historical_df st) = columns original_data"
    unfolding h by (simp add: DataFrame_def drop_duplicates_def)
  have 5: "sorted (map fst (rows (full_historical_df st)))"
    unfolding h using d by (rule sorted_join_DataFrame)
  have nan: "nan_cells ?raw = replicate (length (columns original_data)) NaN"
    by (simp add: nan_cells_def drop_duplicates_def)
  have 6: "filter (\<lambda>r. fst r = k) (rows (full_historical_df st)) =
             (if k \<in> set (map fst (rows (cell12 original_data)))
              then filter (\<lambda>r. fst r = k) (rows (cell12 original_data))
              else if k \<in> set (map fst (rows (full_df st)))
              then [(k, replicate (length (columns original_data)) NaN)]
              else [])" for k
    unfolding h keys_full cell12_def rows_at_join_DataFrame [OF d] nan by simp
  have 7: "length (rows (full_historical_df st)) =
             length (rows (cell12 original_data))
             + length (filter (\<lambda>k. k \<notin> set (map fst (rows (cell12 original_data))))
                              (map fst (rows (full_df st))))"
    unfolding h keys_full cell12_def length_join_DataFrame [OF d] by simp
  from 6 have k6: "\<forall>k. filter (\<lambda>r. fst r = k) (rows (full_historical_df st)) =
             (if k \<in> set (map fst (rows (cell12 original_data)))
              then filter (\<lambda>r. fst r = k) (rows (cell12 original_data))
              else if k \<in> set (map fst (rows (full_df st)))
              then [(k, replicate (length (columns original_data)) NaN)]
              else [])" ..
  from 3 have k3: "distinct (map fst (rows (cell12 original_data)))
            \<and> set (map fst (rows (cell12 original_data))) \<subseteq> set (map fst (rows (full_df st)))
          \<longrightarrow> map fst (rows (full_historical_df st)) = map fst (rows (full_df st))
              \<and> length (rows (full_historical_df st)) =
                  nat ((range_end p - range_start p) div freq p + 1)" ..
  show ?thesis by (intro conjI 1 2 k3 4 5 k6 7)
qed

theorem full_historical_df_axis_witness:
  "(0::int) < freq three_hours \<and> range_start three_hours \<le> range_end three_hours
   \<and> notebook1 three_hours sample_input = Inr sample_store
   \<and> distinct (map fst (rows (cell12 sample_input)))
   \<and> set (map fst (rows (cell12 sample_input))) \<subseteq> set (map fst (rows (full_df sample_store)))
   \<and> map fst (rows (full_df sample_store)) = [0, 3600, 7200]
   \<and> map fst (rows (full_historical_df sample_store)) = [0, 3600, 7200]
   \<and> length (rows (full_historical_df sample_store)) = 3
   \<and> filter (\<lambda>r. fst r = 3600) (rows (full_historical_df sample_store)) = [(3600, replicate 8 NaN)]"
proof -
  have 1: "(0::int) < freq three_hours" "range_start three_hours \<le> range_end three_hours"
    by (simp_all add: three_hours_def)
  have 2: "distinct (map fst (rows (cell12 sample_input)))" by code_simp
  have 3: "set (map fst (rows (cell12 sample_input))) \<subseteq> set (map fst (rows (full_df sample_store)))"
    by code_simp
  have 4: "map (\<lambda>k. range_start three_hours + int k * freq three_hours) [0..<3] = [0, 3600, 7200]"
    by code_simp
  have 5: "nat ((range_end three_hours - range_start three_hours) div freq three_hours + 1) = 3"
    by code_simp
  have 6: "3600 \<notin> set (map fst (rows (cell12 sample_input)))" by code_simp
  have 7: "3600 \<in> set (map fst (rows (full_df sample_store)))" by code_simp
  have 8: "length (columns sample_input) = 8" by code_simp
  note T = full_historical_df_axis [OF 1 notebook1_sample, unfolded 5, unfolded 4]
  note A = T [THEN conjunct1]
  note B = T [THEN conjunct2, THEN conjunct2, THEN conjunct1, THEN mp, OF conjI [OF 2 3]]
  note G = T [THEN conjunct2, THEN conjunct2, THEN conjunct2, THEN conjunct2, THEN conjunct2,
              THEN conjunct1, THEN spec, of 3600]
  have C: "map fst (rows (full_historical_df sample_store)) = [0, 3600, 7200]"
    using B [THEN conjunct1] A by (rule trans)
  have D: "filter (\<lambda>r. fst r = 3600) (rows (full_historical_df sample_store)) = [(3600, replicate 8 NaN)]"
    using G 6 7 8 by (simp only: if_False if_True)
  show ?thesis
    by (intro conjI 1 notebook1_sample 2 3 A C B [THEN conjunct2] D)
qed

text \<open>
  Claim C2 as stated fails: two input rows for the same hour with different values give
  two rows of the joined frame, which then has four rows for a range of three hours, and
  a time stamp twice.
\<close>

theorem duplicate_timestamps_add_rows:
  "(case notebook1 three_hours
           (original [(0, observation 288 ''mist'' 5545), (0, observation 288 ''light rain'' 5545),
                      (3600, observation 289 ''mist'' 4516), (7200, observation 290 ''mist'' 4767)]) of
      Inl e \<Rightarrow> False
    | Inr st \<Rightarrow> map fst (rows (full_historical_df st)) = [0, 0, 3600, 7200])
   \<and> (range_end three_hours - range_start three_hours) div freq three_hours + 1 = 3"
  by code_simp

text \<open>
  Claim C3, as the code has it. \<open>drop_duplicates\<close> compares the value columns and not the
  time stamp, which is the index: a row is kept exactly when no earlier row has the same
  values in all columns. Of rows with the same values the first is kept; rows with
  different values are all kept, also when they carry the same time stamp.
\<close>

theorem drop_duplicates_compares_values_only:
  "rows (cell12 df) =
     map (nth (rows df))
         (filter (\<lambda>i. \<forall>j<i. snd (rows df ! j) \<noteq> snd (rows df ! i)) [0..<length (rows df)])
   \<and> columns (cell12 df) = columns df"
  using drop_duplicates_rows_nth [of "[]" "rows df"]
  by (simp add: cell12_def drop_duplicates_def)

theorem drop_duplicates_compares_values_only_witness:
  "rows (cell12 (original [(0, observation 288 ''mist'' 5545),
                           (0, observation 288 ''light rain'' 5545),
                           (3600, observation 288 ''mist'' 5545)])) =
     [(0, observation 288 ''mist'' 5545), (0, observation 288 ''light rain'' 5545)]"
  using drop_duplicates_compares_values_only
          [of "original [(0, observation 288 ''mist'' 5545),
                         (0, observation 288 ''light rain'' 5545),
                         (3600, observation 288 ''mist'' 5545)]"]
  by (simp add: original_def observation_def upt_conv_Cons less_Suc_eq)

text \<open>
  Claim C3 as stated fails: two rows with the same time stamp and different values are
  both kept.
\<close>

theorem drop_duplicates_keeps_both_values_of_a_timestamp:
  "rows (cell12 (original [(0, observation 288 ''mist'' 5545),
                           (0, observation 288 ''light rain'' 5545)])) =
     [(0, observation 288 ''mist'' 5545), (0, observation 288 ''light rain'' 5545)]"
  by (simp add: cell12_def drop_duplicates_def original_def observation_def)

text \<open>
  Claim C7, as the code has it. The two notebooks return a regular input unchanged when,
  besides being gap-free over the range, free of missing values and of empty strings and
  in the order of time, no two of its rows carry the same values in all columns, and the
  slice does not start after the range.
\<close>

theorem regular_input_is_unchanged:
  assumes "0 < freq p" and "range_start p \<le> range_end p" and "slice_from p \<le> range_start p"
    and "map fst (rows original_data) =
           map (\<lambda>k. range_start p + int k * freq p)
               [0..<nat ((range_end p - range_start p) div freq p + 1)]"
    and "\<forall>r\<in>set (rows original_data). NaN \<notin> set (snd r) \<and> Str [] \<notin> set (snd r)"
    and "distinct (map snd (rows original_data))"
    and "notebook1 p original_data = Inr st"
  shows "related_cell4 p st = original_data"
proof -
  from notebook1_store [OF assms(7)] obtain idx where
    idx: "cell14 p = Inr idx" and f: "full_df st = DataFrame idx"
    and h: "full_historical_df st = join_outer (DataFrame idx) (drop_duplicates original_data)"
    and t: "target_df st = loc_from (slice_from p) (full_historical_df st)"
    by metis
  have dr: "date_range (range_start p) (range_end p) (freq p) = Inr idx"
    using idx by (simp add: cell14_def)
  have keys: "map fst (rows original_data) = idx"
    using dr date_range_axis [OF assms(1,2)] assms(4) by simp
  have d: "distinct idx" using dr by (rule distinct_date_range)
  have s: "sorted idx" using assms(1) dr by (rule sorted_date_range)
  have lo: "\<forall>r\<in>set (rows original_data). slice_from p \<le> fst r"
  proof
    fix r assume "r \<in> set (rows original_data)"
    then have "fst r \<in> set (map fst (rows original_data))" by simp
    then have "fst r \<in> set idx" unfolding keys .
    then have "range_start p \<le> fst r" by (rule date_range_lower [OF assms(1) dr])
    with assms(3) show "slice_from p \<le> fst r" by simp
  qed
  have 1: "drop_duplicates original_data = original_data"
    using assms(6) by (rule drop_duplicates_distinct)
  have 2: "join_outer (DataFrame idx) original_data = original_data"
    using keys s d by (rule join_outer_regular)
  have 3: "loc_from (slice_from p) original_data = original_data"
    using lo by (rule loc_from_all)
  have 4: "replace_empty original_data = original_data"
    using assms(5) by (intro replace_empty_none) simp
  have 5: "ffill original_data = original_data"
    using assms(5) by (intro ffill_complete) simp
  have "target_df st = original_data" unfolding t h 1 2 3 ..
  then show ?thesis
    unfolding related_cell4_unfold f by (simp only: 2 3 4 5)
qed

theorem regular_input_is_unchanged_witness:
  "(0::int) < freq three_hours \<and> range_start three_hours \<le> range_end three_hours
   \<and> slice_from three_hours \<le> range_start three_hours
   \<and> map fst (rows regular_input) = [0, 3600, 7200]
   \<and> distinct (map snd (rows regular_input))
   \<and> notebook1 three_hours regular_input = Inr regular_store
   \<and> related_cell4 three_hours regular_store = regular_input"
proof -
  have 1: "(0::int) < freq three_hours" "range_start three_hours \<le> range_end three_hours"
    "slice_from three_hours \<le> range_start three_hours"
    by (simp_all add: three_hours_def)
  have 4: "map fst (rows regular_input) =
             map (\<lambda>k. range_start three_hours + int k * freq three_hours)
                 [0..<nat ((range_end three_hours - range_start three_hours) div freq three_hours + 1)]"
    by code_simp
  have k4: "map fst (rows regular_input) = [0, 3600, 7200]" by code_simp
  have 5: "\<forall>r\<in>set (rows regular_input). NaN \<notin> set (snd r) \<and> Str [] \<notin> set (snd r)"
    by code_simp
  have 6: "distinct (map snd (rows regular_input))" by code_simp
  show ?thesis
    by (intro conjI 1 k4 6 notebook1_regular
          regular_input_is_unchanged [OF 1 4 5 6 notebook1_regular])
qed

text \<open>
  Claim C7 as stated fails: an input with one row for each of the three hours, no gap and
  no missing value, in which the third hour repeats the values of the first, comes back
  with the values of the second hour in the third. \<open>drop_duplicates\<close> removes the third row
  and the forward fill puts the second in its place.
\<close>

theorem regular_input_with_a_repeated_value_is_changed:
  "(case notebook1 three_hours
           (original [(0, observation 288 ''mist'' 5545), (3600, observation 289 ''mist'' 4516),
                      (7200, observation 288 ''mist'' 5545)]) of
      Inl e \<Rightarrow> False
    | Inr st \<Rightarrow> related_cell4 three_hours st =
        original [(0, observation 288 ''mist'' 5545), (3600, observation 289 ''mist'' 4516),
                  (7200, observation 289 ''mist'' 4516)])
   \<and> observation 289 ''mist'' 4516 \<noteq> observation 288 ''mist'' 5545"
  by code_simp

text \<open>
  Claim C10. Cell 4 of notebook 3 replaces every empty string by a missing value and then
  fills forward, so that every cell of the filled frame holds the most recent value of its
  column, up to and including its own row, that is neither missing nor the empty string
  (and stays missing when there is none).
\<close>

theorem related_cells_take_most_recent_value:
  assumes "well_formed (join_outer (full_df st) (target_df st))"
    and "i < length (rows (join_outer (full_df st) (target_df st)))"
    and "j < length (columns (join_outer (full_df st) (target_df st)))"
  shows "related_cell4 p st =
           loc_from (slice_from p) (ffill (replace_empty (join_outer (full_df st) (target_df st))))
       \<and> snd (rows (ffill (replace_empty (join_outer (full_df st) (target_df st)))) ! i) ! j =
           most_recent_value
             (map (\<lambda>r. snd r ! j) (take (Suc i) (rows (join_outer (full_df st) (target_df st)))))"
  using related_cell4_unfold ffill_replace_empty_cell [OF assms] by simp

theorem related_cells_take_most_recent_value_witness:
  "snd (rows (ffill (replace_empty (join_outer (full_df sample_store) (target_df sample_store)))) ! 2) ! 6
     = most_recent_value [Str ''mist'', NaN, Str []]
   \<and> most_recent_value [Str ''mist'', NaN, Str []] = Str ''mist''"
proof -
  let ?J = "join_outer (full_df sample_store) (target_df sample_store)"
  have 1: "well_formed ?J" by code_simp
  have 2: "2 < length (rows ?J)" by code_simp
  have 3: "6 < length (columns ?J)" by code_simp
  have 4: "map (\<lambda>r. snd r ! 6) (take (Suc 2) (rows ?J)) = [Str ''mist'', NaN, Str []]"
    by code_simp
  have 5: "most_recent_value [Str ''mist'', NaN, Str []] = Str ''mist''" by code_simp
  show ?thesis
    using related_cells_take_most_recent_value [OF 1 2 3, of three_hours] 4 5 by simp
qed

text \<open>
  Claim C6, as far as it holds. The input has one row for each hour from 2017-01-01
  00:00:00 to 2018-09-30 23:00:00 but for some missing hours, which are after the first
  hour and no later than 2018-09-30 00:00:00, the last point of the axis of cell 14; no cell
  is missing or empty and no two rows have the same values. Then the frame written by
  notebook 3 has one row for each hour of the range, which makes 15312 rows, no missing
  value, and in the row of every missing hour the cells of the row before it.
\<close>

theorem hourly_series_with_missing_hours:
  assumes "columns od = original_columns"
    and "\<forall>r\<in>set (rows od). length (snd r) = 8 \<and> NaN \<notin> set (snd r) \<and> Str [] \<notin> set (snd r)"
    and "distinct (map snd (rows od))"
    and "map fst (rows od) = filter (\<lambda>t. t \<notin> set missing) hours_2017_2018"
    and "set missing \<subseteq> set (map (\<lambda>k. 1483228800 + int k * 3600) [1..<15289])"
  shows "\<exists>out. related_time_series_df notebook_literals od = Inr out
           \<and> map fst (rows out) = hours_2017_2018
           \<and> length (rows out) = 15312
           \<and> \<not> any_null out
           \<and> (\<forall>i<length (rows out). fst (rows out ! i) \<in> set missing
                  \<longrightarrow> snd (rows out ! i) = snd (rows out ! (i - 1)))"
  using assms by (rule hourly_scenario)

theorem hourly_series_with_missing_hours_witness:
  "columns scenario_input = original_columns
   \<and> distinct (map snd (rows scenario_input))
   \<and> map fst (rows scenario_input) = filter (\<lambda>t. t \<notin> set scenario_missing) hours_2017_2018
   \<and> length scenario_missing = 3
   \<and> (case related_time_series_df notebook_literals scenario_input of
        Inl e \<Rightarrow> False
      | Inr out \<Rightarrow> length (rows out) = 15312 \<and> \<not> any_null out)"
proof -
  from hourly_series_with_missing_hours
         [OF scenario_columns scenario_cells scenario_values scenario_keys scenario_missing_on_index]
  obtain out where "related_time_series_df notebook_literals scenario_input = Inr out"
    and "length (rows out) = 15312" and "\<not> any_null out"
    by auto
  then have "case related_time_series_df notebook_literals scenario_input of
        Inl e \<Rightarrow> False
      | Inr out \<Rightarrow> length (rows out) = 15312 \<and> \<not> any_null out"
    by simp
  moreover have "length scenario_missing = 3" by (simp add: scenario_missing_def)
  ultimately show ?thesis
    using scenario_columns scenario_values scenario_keys by simp
qed

text \<open>
  Claim C6 as stated fails on the number of rows: for the input that has a row for every
  hour of the range but the hours 100, 5000 and 12000 after 2017-01-01 00:00:00, with
  values that differ from hour to hour, the frame has 15312 rows and not 18609. The hours
  from 2017-01-01 00:00:00 to 2018-09-30 23:00:00 are 15312; the frame of the reference
  run is longer because its input has several rows for one time stamp, and the outer join
  keeps one row for each of them.
\<close>

theorem reference_scenario_has_15312_rows:
  "(case related_time_series_df notebook_literals scenario_input of
      Inl e \<Rightarrow> False
    | Inr out \<Rightarrow> length (rows out) = 15312 \<and> length (rows out) \<noteq> 18609)"
proof -
  from hourly_scenario
         [OF scenario_columns scenario_cells scenario_values scenario_keys scenario_missing_on_index]
  obtain out where "related_time_series_df notebook_literals scenario_input = Inr out"
    and "length (rows out) = 15312"
    by auto
  then show ?thesis by simp
qed

section \<open>The claims about the files\<close>

text \<open>
  Claim C8. Each of the three files is written without a header line: read back as
  comma-separated text, the file written by \<open>to_csv\<close> gives one record for each row of its
  frame and nothing else, whatever the cells hold and whatever the types of the columns. A
  record holds the time stamp, then the cells in the order of the columns, with the item
  identifier last (the column \<open>item_ID\<close>, always \<open>1\<close>), and has as many fields as the schema
  of its dataset has attributes, in the order of the schema: time stamp, value, item for
  the target and validation files, and time stamp, temperature, rain, snow, clouds, weather,
  item for the related file. The fields of a record are joined by commas; a line in which
  no field needs quotes splits at its commas into exactly the fields of the record, and
  any lines written with quotes are read back as the records they were written from.
\<close>

theorem files_follow_the_schemas:
  assumes "notebook1 p original_data = Inr st" and "notebook3 p st = Inr related"
  shows "columns (target_time_series_df st) = [''traffic_volume'', ''item_ID'']
     \<and> columns (validation_time_series_df st) = [''traffic_volume'', ''item_ID'']
     \<and> columns related =
         [''temp'', ''rain_1h'', ''snow_1h'', ''clouds_all'', ''weather_description'', ''item_ID'']
     \<and> map AttributeName schema = [''timestamp'', ''target_value'', ''item_id'']
     \<and> map AttributeName related_schema =
         [''timestamp'', ''temperature'', ''rain_1h'', ''snow_1h'', ''clouds_all'', ''weather'',
          ''item_id'']
     \<and> (\<forall>df\<in>{target_time_series_df st, validation_time_series_df st}.
           read_records (to_csv repr dtypes df) = to_csv_records repr dtypes df
         \<and> length (to_csv_records repr dtypes df) = length (rows df)
         \<and> map hd (to_csv_records repr dtypes df) =
             concat (map (\<lambda>chunk. format_index (map fst chunk)) (chunks_of (chunksize df) (rows df)))
         \<and> map tl (to_csv_records repr dtypes df) = map (\<lambda>r. render_cells repr dtypes (snd r)) (rows df)
         \<and> (\<forall>fs\<in>set (to_csv_records repr dtypes df). length fs = length schema \<and> last fs = ''1''))
     \<and> read_records (to_csv repr dtypes related) = to_csv_records repr dtypes related
     \<and> length (to_csv_records repr dtypes related) = length (rows related)
     \<and> map hd (to_csv_records repr dtypes related) =
         concat (map (\<lambda>chunk. format_index (map fst chunk))
                     (chunks_of (chunksize related) (rows related)))
     \<and> map tl (to_csv_records repr dtypes related) =
         map (\<lambda>r. render_cells repr dtypes (snd r)) (rows related)
     \<and> (\<forall>fs\<in>set (to_csv_records repr dtypes related). length fs = length related_schema \<and> last fs = ''1'')
     \<and> (\<forall>fs. fs \<noteq> [] \<and> (\<forall>f\<in>set fs. \<not> needs_quotes f)
           \<longrightarrow> csv_line fs = join_fields fs @ [CHR 0x0A] \<and> split_fields (join_fields fs) = fs)
     \<and> (\<forall>recs. [] \<notin> set recs \<longrightarrow> read_records (concat (map csv_line recs)) = recs)"
proof -
  from notebook1_files [OF assms(1)] obtain df df' where
    t: "cell37 df = Inr (target_time_series_df st)"
    and v: "cell37 df' = Inr (validation_time_series_df st)"
    by metis
  have r: "related_cell11 (snd (related_cell7 (related_cell4 p st))) = Inr related"
    using assms(2) by (simp add: notebook3_def)
  note T = cell37_Inr [OF t] and V = cell37_Inr [OF v] and R = related_cell11_Inr [OF r]
  have ls: "length schema = Suc 2" by (simp add: schema_def)
  have lr: "length related_schema = Suc 6" by (simp add: related_schema_def)
  have shape: "read_records (to_csv repr dtypes f) = to_csv_records repr dtypes f
       \<and> length (to_csv_records repr dtypes f) = length (rows f)
       \<and> map hd (to_csv_records repr dtypes f) =
           concat (map (\<lambda>chunk. format_index (map fst chunk)) (chunks_of (chunksize f) (rows f)))
       \<and> map tl (to_csv_records repr dtypes f) = map (\<lambda>r. render_cells repr dtypes (snd r)) (rows f)
       \<and> (\<forall>fs\<in>set (to_csv_records repr dtypes f). length fs = Suc n \<and> last fs = ''1'')"
    if "\<forall>r\<in>set (rows f). length (snd r) = n \<and> last (snd r) = Str ''1''" and "0 < n" for f n
    using file_shape [OF that, of repr dtypes] read_records_to_csv [of repr dtypes f] by (rule conjI [rotated])
  have ft: "read_records (to_csv repr dtypes (target_time_series_df st)) =
           to_csv_records repr dtypes (target_time_series_df st)
       \<and> length (to_csv_records repr dtypes (target_time_series_df st)) = length (rows (target_time_series_df st))
       \<and> map hd (to_csv_records repr dtypes (target_time_series_df st)) =
           concat (map (\<lambda>chunk. format_index (map fst chunk))
                  (chunks_of (chunksize (target_time_series_df st)) (rows (target_time_series_df st))))
       \<and> map tl (to_csv_records repr dtypes (target_time_series_df st)) =
           map (\<lambda>r. render_cells repr dtypes (snd r)) (rows (target_time_series_df st))
       \<and> (\<forall>fs\<in>set (to_csv_records repr dtypes (target_time_series_df st)). length fs = length schema \<and> last fs = ''1'')"
    unfolding ls by (rule shape [OF T [THEN conjunct2]]) simp
  have fv: "read_records (to_csv repr dtypes (validation_time_series_df st)) =
           to_csv_records repr dtypes (validation_time_series_df st)
       \<and> length (to_csv_records repr dtypes (validation_time_series_df st)) = length (rows (validation_time_series_df st))
       \<and> map hd (to_csv_records repr dtypes (validation_time_series_df st)) =
           concat (map (\<lambda>chunk. format_index (map fst chunk))
                  (chunks_of (chunksize (validation_time_series_df st)) (rows (validation_time_series_df st))))
       \<and> map tl (to_csv_records repr dtypes (validation_time_series_df st)) =
           map (\<lambda>r. render_cells repr dtypes (snd r)) (rows (validation_time_series_df st))
       \<and> (\<forall>fs\<in>set (to_csv_records repr dtypes (validation_time_series_df st)). length fs = length schema \<and> last fs = ''1'')"
    unfolding ls by (rule shape [OF V [THEN conjunct2]]) simp
  have fr: "read_records (to_csv repr dtypes related) = to_csv_records repr dtypes related
       \<and> length (to_csv_records repr dtypes related) = length (rows related)
       \<and> map hd (to_csv_records repr dtypes related) =
           concat (map (\<lambda>chunk. format_index (map fst chunk)) (chunks_of (chunksize related) (rows related)))
       \<and> map tl (to_csv_records repr dtypes related) =
           map (\<lambda>r. render_cells repr dtypes (snd r)) (rows related)
       \<and> (\<forall>fs\<in>set (to_csv_records repr dtypes related). length fs = length related_schema \<and> last fs = ''1'')"
    unfolding lr by (rule shape [OF R [THEN conjunct2]]) simp
  have names: "map AttributeName schema = [''timestamp'', ''target_value'', ''item_id'']"
    "map AttributeName related_schema =
       [''timestamp'', ''temperature'', ''rain_1h'', ''snow_1h'', ''clouds_all'', ''weather'', ''item_id'']"
    by (simp_all add: schema_def related_schema_def)
  have plain: "\<forall>fs. fs \<noteq> [] \<and> (\<forall>f\<in>set fs. \<not> needs_quotes f)
           \<longrightarrow> csv_line fs = join_fields fs @ [CHR 0x0A] \<and> split_fields (join_fields fs) = fs"
  proof (intro allI impI)
    fix fs :: "string list"
    assume "fs \<noteq> [] \<and> (\<forall>f\<in>set fs. \<not> needs_quotes f)"
    then have "fs \<noteq> []" "\<forall>f\<in>set fs. \<not> needs_quotes f" by simp_all
    then show "csv_line fs = join_fields fs @ [CHR 0x0A] \<and> split_fields (join_fields fs) = fs"
      by (rule csv_line_plain)
  qed
  have quoted: "\<forall>recs. [] \<notin> set recs \<longrightarrow> read_records (concat (map csv_line recs)) = recs"
    by (intro allI impI) (rule read_records_lines)
  have both: "\<forall>df\<in>{target_time_series_df st, validation_time_series_df st}.
           read_records (to_csv repr dtypes df) = to_csv_records repr dtypes df
         \<and> length (to_csv_records repr dtypes df) = length (rows df)
         \<and> map hd (to_csv_records repr dtypes df) =
             concat (map (\<lambda>chunk. format_index (map fst chunk)) (chunks_of (chunksize df) (rows df)))
         \<and> map tl (to_csv_records repr dtypes df) = map (\<lambda>r. render_cells repr dtypes (snd r)) (rows df)
         \<and> (\<forall>fs\<in>set (to_csv_records repr dtypes df). length fs = length schema \<and> last fs = ''1'')"
    using ft fv by simp
  show ?thesis
    by (intro conjI T [THEN conjunct1] V [THEN conjunct1] R [THEN conjunct1] names both
          fr [THEN conjunct1] fr [THEN conjunct2, THEN conjunct1]
          fr [THEN conjunct2, THEN conjunct2, THEN conjunct1]
          fr [THEN conjunct2, THEN conjunct2, THEN conjunct2, THEN conjunct1]
          fr [THEN conjunct2, THEN conjunct2, THEN conjunct2, THEN conjunct2] plain quoted)
qed

theorem files_follow_the_schemas_witness:
  "notebook1 three_hours sample_input = Inr sample_store
   \<and> columns (target_time_series_df sample_store) = [''traffic_volume'', ''item_ID'']
   \<and> to_csv sample_repr [float64, object] (target_time_series_df sample_store) =
       ''1970-01-01 00:00:00,5545.0,1'' @ [CHR 0x0A] @ ''1970-01-01 01:00:00,,1'' @ [CHR 0x0A]
   \<and> read_records (''1970-01-01 00:00:00,5545.0,1'' @ [CHR 0x0A] @ ''1970-01-01 01:00:00,,1'' @ [CHR 0x0A]) =
       [[''1970-01-01 00:00:00'', ''5545.0'', ''1''], [''1970-01-01 01:00:00'', [], ''1'']]
   \<and> read_records (csv_line [''2017-01-01'', ''rain, then snow'', ''1'']) =
       [[''2017-01-01'', ''rain, then snow'', ''1'']]
   \<and> notebook1 three_hours regular_input = Inr regular_store
   \<and> to_csv sample_repr [int64, object] (validation_time_series_df regular_store) =
       ''1970-01-01 02:00:00,4767,1'' @ [CHR 0x0A]"
proof -
  note T = files_follow_the_schemas [OF notebook1_sample notebook3_sample, of sample_repr "[float64, object]"]
  have "target_time_series_df sample_store
          \<in> {target_time_series_df sample_store, validation_time_series_df sample_store}"
    by (rule insertI1)
  with T have "read_records (to_csv sample_repr [float64, object] (target_time_series_df sample_store)) =
                 to_csv_records sample_repr [float64, object] (target_time_series_df sample_store)"
    by (elim conjE) (drule (1) bspec, elim conjE)
  then have A: "read_records (''1970-01-01 00:00:00,5545.0,1'' @ [CHR 0x0A] @ ''1970-01-01 01:00:00,,1'' @ [CHR 0x0A]) =
       [[''1970-01-01 00:00:00'', ''5545.0'', ''1''], [''1970-01-01 01:00:00'', [], ''1'']]"
    unfolding to_csv_sample to_csv_records_sample .
  have "[] \<notin> set [[''2017-01-01'', ''rain, then snow'', ''1'']]" by simp
  with T have "read_records (concat (map csv_line [[''2017-01-01'', ''rain, then snow'', ''1'']])) =
                 [[''2017-01-01'', ''rain, then snow'', ''1'']]"
    by (elim conjE) (drule spec, drule (1) mp)
  then have B: "read_records (csv_line [''2017-01-01'', ''rain, then snow'', ''1'']) =
       [[''2017-01-01'', ''rain, then snow'', ''1'']]"
    by simp
  show ?thesis
    by (intro conjI notebook1_sample T [THEN conjunct1] to_csv_sample A B notebook1_regular
          to_csv_regular)
qed

text \<open>
  Claim C9. The files carry the hour on the 24-hour clock (13:00:00 for one o'clock in the
  afternoon), but the format declared to both import jobs is \<open>yyyy-MM-dd hh:mm:ss\<close>, with
  the pattern letter of the 12-hour clock, and not \<open>yyyy-MM-dd HH:mm:ss\<close>.
\<close>

theorem declared_timestamp_format:
  "TimestampFormat (target_import_request ''dataset'' ''bucket'' ''role'') = ''yyyy-MM-dd hh:mm:ss''
   \<and> TimestampFormat (related_import_request ''id'' ''dataset'' ''bucket'' ''role'') = ''yyyy-MM-dd hh:mm:ss''
   \<and> TIMESTAMP_FORMAT \<noteq> ''yyyy-MM-dd HH:mm:ss''
   \<and> format_index [1483228800, 1483275600] = [''2017-01-01 00:00:00'', ''2017-01-01 13:00:00'']"
  by code_simp

end
